theory Spec2Isabelle
  imports Main "HOL-Library.AList" "HOL-Library.Char_ord" "HOL-Library.List_Lexorder"
begin

section \<open>Data model\<close>

text \<open>
  A \<open>uuid.UUID\<close> is only ever compared for equality, so it is a natural number here, and
  its canonical text (\<open>UUID.String()\<close>) stands for the identifier itself. A \<open>*Client\<close> is an
  address: two clients are the same connection exactly when their addresses are equal.
\<close>

type_synonym uuid = nat
type_synonym addr = nat

record Participant =
  p_ID :: uuid
  p_Username :: string

record Message =
  m_ID :: int
  m_RoomID :: uuid
  m_UserID :: uuid
  m_Username :: string
  m_Content :: string
  m_MessageType :: string
  m_MediaURL :: string
  m_CreatedAt :: int

record MessagePayload =
  mp_ID :: int
  mp_RoomID :: uuid
  mp_UserID :: uuid
  mp_Username :: string
  mp_Content :: string
  mp_MessageType :: string
  mp_MediaURL :: string
  mp_CreatedAt :: int

record IncomingMessage =
  in_Type :: string
  in_Content :: string

record OutgoingMessage =
  o_Type :: string
  o_Message :: "MessagePayload option"
  o_Participants :: "Participant list"
  o_CallUsers :: "Participant list"
  o_Messages :: "MessagePayload list"

text \<open>
  The \<open>Client\<close> struct. \<open>Send\<close> is the buffered channel's content, oldest first, and
  \<open>SendCap\<close> its capacity; \<open>ConnClosed\<close> says whether \<open>Conn.Close()\<close> has been called.
  The \<open>Hub\<close> and \<open>Store\<close> pointers are the same for all clients and live in the state.
\<close>

record Client =
  Addr :: addr
  RoomID :: uuid
  UserID :: uuid
  Username :: string
  InCall :: bool
  Send :: "OutgoingMessage list"
  SendCap :: nat
  ConnClosed :: bool

text \<open>
  The \<open>Hub\<close> struct. A Go set \<open>map[*Client]struct{}\<close> is the list of its keys, and the
  inner maps of \<open>callCounts\<close> and \<open>callUsers\<close> are association lists, because the code
  ranges over them and takes their \<open>len\<close>. Go ranges over a map in no fixed order; the
  lists fix one.
\<close>

record Hub =
  rooms :: "uuid \<rightharpoonup> addr list"
  callCounts :: "uuid \<rightharpoonup> (uuid \<times> int) list"
  callUsers :: "uuid \<rightharpoonup> (uuid \<times> Participant) list"

type_synonym heap = "addr \<rightharpoonup> Client"

definition NewHub :: Hub where
  "NewHub = \<lparr>rooms = Map.empty, callCounts = Map.empty, callUsers = Map.empty\<rparr>"

section \<open>The hub\<close>

definition addCallLocked :: "Hub \<Rightarrow> uuid \<Rightarrow> uuid \<Rightarrow> string \<Rightarrow> Hub" where
  "addCallLocked h roomID userID username =
     (let counts = (case callCounts h roomID of None \<Rightarrow> [] | Some cs \<Rightarrow> cs);
          users = (case callUsers h roomID of None \<Rightarrow> [] | Some us \<Rightarrow> us);
          n = (case map_of counts userID of None \<Rightarrow> 0 | Some k \<Rightarrow> k)
      in h\<lparr>callCounts := (callCounts h)(roomID \<mapsto> AList.update userID (n + 1) counts),
            callUsers := (callUsers h)(roomID \<mapsto>
              AList.update userID \<lparr>p_ID = userID, p_Username = username\<rparr> users)\<rparr>)"

definition removeCallLocked :: "Hub \<Rightarrow> uuid \<Rightarrow> uuid \<Rightarrow> Hub" where
  "removeCallLocked h roomID userID =
     (case callCounts h roomID of
        None \<Rightarrow> h
      | Some counts \<Rightarrow>
          (let n = (case map_of counts userID of None \<Rightarrow> 0 | Some k \<Rightarrow> k) - 1;
               counts' = (if n \<le> 0 then AList.delete userID counts
                          else AList.update userID n counts);
               users' = (if n \<le> 0
                         then (case callUsers h roomID of
                                 None \<Rightarrow> callUsers h
                               | Some users \<Rightarrow>
                                   (callUsers h)(roomID \<mapsto> AList.delete userID users))
                         else callUsers h)
           in if length counts' = 0
              then h\<lparr>callCounts := (callCounts h)(roomID := None),
                     callUsers := users'(roomID := None)\<rparr>
              else h\<lparr>callCounts := (callCounts h)(roomID \<mapsto> counts'),
                     callUsers := users'\<rparr>))"

definition Add :: "Hub \<Rightarrow> Client \<Rightarrow> Hub" where
  "Add h c =
     h\<lparr>rooms := (rooms h)(RoomID c \<mapsto>
        (case rooms h (RoomID c) of
           None \<Rightarrow> [Addr c]
         | Some clients \<Rightarrow> List.insert (Addr c) clients))\<rparr>"

definition Remove :: "Hub \<Rightarrow> Client \<Rightarrow> Hub" where
  "Remove h c =
     (case rooms h (RoomID c) of
        None \<Rightarrow> h
      | Some clients \<Rightarrow>
          (let clients' = removeAll (Addr c) clients;
               h' = removeCallLocked (h\<lparr>rooms := (rooms h)(RoomID c \<mapsto> clients')\<rparr>)
                      (RoomID c) (UserID c)
           in if length clients' = 0
              then h'\<lparr>rooms := (rooms h')(RoomID c := None)\<rparr>
              else h'))"

definition SetInCall :: "Hub \<Rightarrow> Client \<Rightarrow> bool \<Rightarrow> Hub" where
  "SetInCall h c inCall =
     (if inCall then addCallLocked h (RoomID c) (UserID c) (Username c)
      else removeCallLocked h (RoomID c) (UserID c))"

definition CallParticipants :: "Hub \<Rightarrow> uuid \<Rightarrow> Participant list" where
  "CallParticipants h roomID =
     (case callUsers h roomID of None \<Rightarrow> [] | Some users \<Rightarrow> map snd users)"

definition clients_of :: "Hub \<Rightarrow> uuid \<Rightarrow> addr list" where
  "clients_of h roomID = (case rooms h roomID of None \<Rightarrow> [] | Some clients \<Rightarrow> clients)"

text \<open>
  One arm of the \<open>select\<close> in \<open>Broadcast\<close>: the send succeeds when the buffer has room,
  otherwise the \<open>default\<close> arm closes the client's socket.
\<close>

definition try_send :: "OutgoingMessage \<Rightarrow> Client \<Rightarrow> Client" where
  "try_send payload c =
     (if length (Send c) < SendCap c then c\<lparr>Send := Send c @ [payload]\<rparr>
      else c\<lparr>ConnClosed := True\<rparr>)"

definition Broadcast :: "Hub \<Rightarrow> heap \<Rightarrow> uuid \<Rightarrow> OutgoingMessage \<Rightarrow> heap" where
  "Broadcast h hp roomID payload =
     fold (\<lambda>a hp'. case hp' a of None \<Rightarrow> hp' | Some c \<Rightarrow> hp'(a \<mapsto> try_send payload c))
       (clients_of h roomID) hp"

definition Participants :: "Hub \<Rightarrow> heap \<Rightarrow> uuid \<Rightarrow> Participant list" where
  "Participants h hp roomID =
     concat (map (\<lambda>a. case hp a of None \<Rightarrow> []
                     | Some c \<Rightarrow> [\<lparr>p_ID = UserID c, p_Username = Username c\<rparr>])
       (clients_of h roomID))"

section \<open>The store\<close>

text \<open>
  The database is a record of its tables. \<open>tbl_messages\<close> holds the rows of
  \<open>messages m JOIN users u ON u.id = m.user_id\<close> in insertion order (the foreign key on
  \<open>user_id\<close> makes the join lose no row). Any statement can fail: \<open>db_fails q\<close> says
  whether the driver reports an error for statement \<open>q\<close>. Times are instants on an
  integer clock. Where a query orders rows by a column and two rows agree on it, the
  engine is free to return them either way round: \<open>db_order\<close> is the engine's own rank
  of the rows, which decides between such rows and which no query fixes.
\<close>

datatype query =
  SelectRoom | SelectIsMember | SelectMembers | SelectMessages | InsertMessage | SelectUser

datatype error = ErrNotFound | ErrDriver | ErrInvalidToken | ErrReadLimit | ErrDecode

record Room =
  r_ID :: uuid
  r_Name :: string
  r_CreatedBy :: uuid
  r_IsPrivate :: bool
  r_CreatedAt :: int

record RoomMember =
  rm_ID :: uuid
  rm_Username :: string

record Store =
  tbl_rooms :: "uuid \<rightharpoonup> Room"
  tbl_room_members :: "(uuid \<times> uuid) list"
  tbl_users :: "uuid \<rightharpoonup> string"
  tbl_messages :: "Message list"
  next_message_id :: int
  db_fails :: "query \<Rightarrow> bool"
  db_order :: "Message \<Rightarrow> int"

definition GetRoomByID :: "Store \<Rightarrow> uuid \<Rightarrow> error + Room" where
  "GetRoomByID st roomID =
     (if db_fails st SelectRoom then Inl ErrDriver
      else (case tbl_rooms st roomID of None \<Rightarrow> Inl ErrNotFound | Some r \<Rightarrow> Inr r))"

definition IsRoomMember :: "Store \<Rightarrow> uuid \<Rightarrow> uuid \<Rightarrow> error + bool" where
  "IsRoomMember st roomID userID =
     (if db_fails st SelectIsMember then Inl ErrDriver
      else Inr ((roomID, userID) \<in> set (tbl_room_members st)))"

definition ListRoomMembers :: "Store \<Rightarrow> uuid \<Rightarrow> error + RoomMember list" where
  "ListRoomMembers st roomID =
     (if db_fails st SelectMembers then Inl ErrDriver
      else Inr (sort_key rm_Username
             (concat (map (\<lambda>(r, u). if r = roomID
                            then (case tbl_users st u of
                                    None \<Rightarrow> []
                                  | Some name \<Rightarrow> [\<lparr>rm_ID = u, rm_Username = name\<rparr>])
                            else [])
                (tbl_room_members st)))))"

text \<open>
  \<open>SaveMessageWithType\<close>: the \<open>INSERT ... RETURNING\<close> assigns the serial id and the
  creation time \<open>now\<close>; the user's name is read afterwards by \<open>FindUserByID\<close>, and when
  that read fails the row stays inserted and the caller gets the error.
\<close>

definition SaveMessageWithType ::
  "Store \<Rightarrow> uuid \<Rightarrow> uuid \<Rightarrow> string \<Rightarrow> string \<Rightarrow> string \<Rightarrow> int \<Rightarrow> Store \<times> (error + Message)" where
  "SaveMessageWithType st roomID userID content messageType mediaURL now =
     (let messageType' = (if messageType = [] then ''text'' else messageType)
      in if db_fails st InsertMessage then (st, Inl ErrDriver)
         else (case tbl_users st userID of
                 None \<Rightarrow> (st, Inl ErrDriver)
               | Some name \<Rightarrow>
                   (let m = \<lparr>m_ID = next_message_id st, m_RoomID = roomID, m_UserID = userID,
                              m_Username = name, m_Content = content,
                              m_MessageType = messageType', m_MediaURL = mediaURL,
                              m_CreatedAt = now\<rparr>;
                        st' = st\<lparr>tbl_messages := tbl_messages st @ [m],
                                 next_message_id := next_message_id st + 1\<rparr>
                    in if db_fails st SelectUser then (st', Inl ErrDriver)
                       else (st', Inr m))))"

definition SaveMessage ::
  "Store \<Rightarrow> uuid \<Rightarrow> uuid \<Rightarrow> string \<Rightarrow> int \<Rightarrow> Store \<times> (error + Message)" where
  "SaveMessage st roomID userID content now =
     SaveMessageWithType st roomID userID content ''text'' [] now"

text \<open>
  The query of \<open>ListMessages\<close>: the room's rows, \<open>ORDER BY m.created_at DESC LIMIT $2\<close>.
  The sort by creation time is stable, so rows created at the same instant come by the
  engine's rank \<open>rank\<close>, highest first.
\<close>

definition select_messages ::
  "Message list \<Rightarrow> (Message \<Rightarrow> int) \<Rightarrow> uuid \<Rightarrow> int \<Rightarrow> Message list" where
  "select_messages tbl rank roomID limit =
     take (nat limit)
       (rev (sort_key m_CreatedAt (sort_key rank (filter (\<lambda>m. m_RoomID m = roomID) tbl))))"

text \<open>The loop that reverses the fetched slice in place, from both ends inwards.\<close>

function reverse_in_place :: "int \<Rightarrow> int \<Rightarrow> 'a list \<Rightarrow> 'a list" where
  "reverse_in_place i j messages =
     (if i < j
      then reverse_in_place (i + 1) (j - 1)
             (messages[nat i := messages ! nat j, nat j := messages ! nat i])
      else messages)"
  by pat_completeness auto
termination
  by (relation "measure (\<lambda>(i, j, messages). nat (j - i))") auto

definition ListMessages :: "Store \<Rightarrow> uuid \<Rightarrow> int \<Rightarrow> error + Message list" where
  "ListMessages st roomID limit =
     (let limit' = (if limit \<le> 0 \<or> limit > 200 then 50 else limit)
      in if db_fails st SelectMessages then Inl ErrDriver
         else (let messages = select_messages (tbl_messages st) (db_order st) roomID limit'
               in Inr (reverse_in_place 0 (int (length messages) - 1) messages)))"

definition PayloadFromMessage :: "Message \<Rightarrow> MessagePayload" where
  "PayloadFromMessage m =
     \<lparr>mp_ID = m_ID m, mp_RoomID = m_RoomID m, mp_UserID = m_UserID m,
      mp_Username = m_Username m, mp_Content = m_Content m,
      mp_MessageType = m_MessageType m, mp_MediaURL = m_MediaURL m,
      mp_CreatedAt = m_CreatedAt m\<rparr>"

section \<open>The connection handlers\<close>

text \<open>
  The state of the server: the hub, the client objects, the store, and the set of clients
  whose \<open>ReadPump\<close> goroutine is running.
\<close>

record state =
  hub :: Hub
  heap :: heap
  store :: Store
  readers :: "addr set"

record Claims =
  cl_UserID :: string
  cl_Username :: string

text \<open>
  What the handler takes from libraries outside the repository: the JWT library's parse
  (the claims and the token's \<open>Valid\<close> flag, or an error), \<open>uuid.Parse\<close>, and whether
  the websocket upgrade succeeds.
\<close>

record env =
  JWTSecret :: string
  jwt_ParseWithClaims :: "string \<Rightarrow> string \<Rightarrow> error + (Claims \<times> bool)"
  uuid_Parse :: "string \<Rightarrow> uuid option"
  Upgrade_ok :: bool

record request =
  req_token :: string
  req_roomID :: string

datatype status =
  StatusBadRequest | StatusUnauthorized | StatusForbidden | StatusNotFound
  | StatusInternalServerError

datatype response = jsonError status string | UpgradeFailed | Upgraded | Blocked

definition ParseJWT :: "env \<Rightarrow> string \<Rightarrow> string \<Rightarrow> error + Claims" where
  "ParseJWT e secret tokenString =
     (case jwt_ParseWithClaims e tokenString secret of
        Inl err \<Rightarrow> Inl err
      | Inr (claims, valid) \<Rightarrow> if \<not> valid then Inl ErrInvalidToken else Inr claims)"

definition participants_msg :: "RoomMember list \<Rightarrow> OutgoingMessage" where
  "participants_msg members =
     \<lparr>o_Type = ''participants'', o_Message = None,
      o_Participants = map (\<lambda>m. \<lparr>p_ID = rm_ID m, p_Username = rm_Username m\<rparr>) members,
      o_CallUsers = [], o_Messages = []\<rparr>"

definition call_participants_msg :: "Hub \<Rightarrow> uuid \<Rightarrow> OutgoingMessage" where
  "call_participants_msg h roomID =
     \<lparr>o_Type = ''call_participants'', o_Message = None, o_Participants = [],
      o_CallUsers = CallParticipants h roomID, o_Messages = []\<rparr>"

definition history_msg :: "Message list \<Rightarrow> OutgoingMessage" where
  "history_msg history =
     \<lparr>o_Type = ''history'', o_Message = None, o_Participants = [], o_CallUsers = [],
      o_Messages = map PayloadFromMessage history\<rparr>"

definition chat_msg :: "Message \<Rightarrow> OutgoingMessage" where
  "chat_msg msg =
     \<lparr>o_Type = ''chat'', o_Message = Some (PayloadFromMessage msg), o_Participants = [],
      o_CallUsers = [], o_Messages = []\<rparr>"

text \<open>
  A plain channel send \<open>c.Send <- m\<close>: it blocks while the buffer is full, and nothing
  drains the buffer before the write pump is started, so a full buffer is \<open>None\<close>.
\<close>

definition chan_send :: "heap \<Rightarrow> addr \<Rightarrow> OutgoingMessage \<Rightarrow> heap option" where
  "chan_send hp a m =
     (case hp a of
        None \<Rightarrow> None
      | Some c \<Rightarrow> if length (Send c) < SendCap c then Some (hp(a \<mapsto> c\<lparr>Send := Send c @ [m]\<rparr>))
                  else None)"

text \<open>
  The part of \<open>roomWebSocket\<close> after the upgrade, for the new client allocated at \<open>a\<close>:
  the \<open>Client\<close> literal with its channel of capacity 64, then the registration and the
  first messages.
\<close>

definition new_client :: "addr \<Rightarrow> uuid \<Rightarrow> uuid \<Rightarrow> string \<Rightarrow> Client" where
  "new_client a roomID userID username =
     \<lparr>Addr = a, RoomID = roomID, UserID = userID, Username = username,
      InCall = False, Send = [], SendCap = 64, ConnClosed = False\<rparr>"

definition serve :: "state \<Rightarrow> uuid \<Rightarrow> uuid \<Rightarrow> string \<Rightarrow> addr \<Rightarrow> response \<times> state" where
  "serve s roomID userID username a =
     (let c = new_client a roomID userID username;
          h1 = Add (hub s) c;
          hp1 = (heap s)(a \<mapsto> c);
          hp2 = (case ListRoomMembers (store s) roomID of
                   Inl err \<Rightarrow> hp1
                 | Inr members \<Rightarrow> Broadcast h1 hp1 roomID (participants_msg members));
          r3 = (case ListMessages (store s) roomID 50 of
                  Inl err \<Rightarrow> Some hp2
                | Inr history \<Rightarrow> chan_send hp2 a (history_msg history))
      in case r3 of
           None \<Rightarrow> (Blocked, s\<lparr>hub := h1, heap := hp2\<rparr>)
         | Some hp3 \<Rightarrow>
             (case chan_send hp3 a (call_participants_msg h1 roomID) of
                None \<Rightarrow> (Blocked, s\<lparr>hub := h1, heap := hp3\<rparr>)
              | Some hp4 \<Rightarrow>
                  (Upgraded, s\<lparr>hub := h1, heap := hp4, readers := insert a (readers s)\<rparr>)))"

definition roomWebSocket :: "env \<Rightarrow> state \<Rightarrow> request \<Rightarrow> addr \<Rightarrow> response \<times> state" where
  "roomWebSocket e s r a =
     (if req_token r = [] then (jsonError StatusUnauthorized ''missing token'', s)
      else case ParseJWT e (JWTSecret e) (req_token r) of
        Inl err \<Rightarrow> (jsonError StatusUnauthorized ''invalid token'', s)
      | Inr claims \<Rightarrow>
         (case uuid_Parse e (cl_UserID claims) of
            None \<Rightarrow> (jsonError StatusUnauthorized ''invalid token payload'', s)
          | Some userID \<Rightarrow>
             (case uuid_Parse e (req_roomID r) of
                None \<Rightarrow> (jsonError StatusBadRequest ''invalid room id'', s)
              | Some roomID \<Rightarrow>
                 (case GetRoomByID (store s) roomID of
                    Inl err \<Rightarrow> (jsonError StatusNotFound ''room not found'', s)
                  | Inr room \<Rightarrow>
                     (case IsRoomMember (store s) roomID userID of
                        Inl err \<Rightarrow>
                          (jsonError StatusInternalServerError ''failed to check membership'', s)
                      | Inr member \<Rightarrow>
                          if \<not> member then (jsonError StatusForbidden ''forbidden'', s)
                          else if \<not> Upgrade_ok e then (UpgradeFailed, s)
                          else serve s roomID userID (cl_Username claims) a)))))"

text \<open>
  A message as it arrives on the socket: its length in bytes and what its text holds.
  The text is a JSON object, of which only the values under \<open>type\<close> and \<open>content\<close>
  matter, or it is something else (no JSON, or JSON that is no object). A value is
  missing, \<open>null\<close>, a string, or of another JSON type.
\<close>

datatype json_field = Absent | JNull | JString string | JOther

datatype json_text = NotAnObject | Object (j_type: json_field) (j_content: json_field)

record wire_frame =
  w_size :: nat
  w_text :: json_text

text \<open>
  \<open>ReadJSON\<close> into an \<open>IncomingMessage\<close>, under \<open>SetReadLimit(4096)\<close>: a message
  longer than the limit is an error; so is a text that is no object, and a value of
  another type than string under one of the two keys. A missing or \<open>null\<close> value leaves
  the field empty.
\<close>

definition readLimit :: nat where
  "readLimit = 4096"

fun decode_string :: "json_field \<Rightarrow> string option" where
  "decode_string Absent = Some []"
| "decode_string JNull = Some []"
| "decode_string (JString v) = Some v"
| "decode_string JOther = None"

definition ReadJSON :: "wire_frame \<Rightarrow> error + IncomingMessage" where
  "ReadJSON f =
     (if readLimit < w_size f then Inl ErrReadLimit
      else (case w_text f of
              NotAnObject \<Rightarrow> Inl ErrDecode
            | Object t c \<Rightarrow>
                (case decode_string t of
                   None \<Rightarrow> Inl ErrDecode
                 | Some ty \<Rightarrow>
                     (case decode_string c of
                        None \<Rightarrow> Inl ErrDecode
                      | Some co \<Rightarrow> Inr \<lparr>in_Type = ty, in_Content = co\<rparr>))))"

text \<open>
  The body of the loop of \<open>ReadPump\<close> for the client at \<open>a\<close>, after \<open>ReadJSON\<close> has
  returned \<open>incoming\<close>; \<open>now\<close> is the time the database gives a saved message.
\<close>

definition ReadPump_body :: "int \<Rightarrow> addr \<Rightarrow> IncomingMessage \<Rightarrow> state \<Rightarrow> state" where
  "ReadPump_body now a incoming s =
     (case heap s a of
        None \<Rightarrow> s
      | Some c \<Rightarrow>
          if in_Type incoming \<noteq> ''chat'' \<or> in_Content incoming = []
          then (if in_Type incoming = ''call_join''
                then (if \<not> InCall c
                      then (let c' = c\<lparr>InCall := True\<rparr>;
                                h1 = SetInCall (hub s) c' True;
                                hp1 = (heap s)(a \<mapsto> c')
                            in s\<lparr>hub := h1,
                                 heap := Broadcast h1 hp1 (RoomID c)
                                           (call_participants_msg h1 (RoomID c))\<rparr>)
                      else s)
                else if in_Type incoming = ''call_leave''
                then (if InCall c
                      then (let c' = c\<lparr>InCall := False\<rparr>;
                                h1 = SetInCall (hub s) c' False;
                                hp1 = (heap s)(a \<mapsto> c')
                            in s\<lparr>hub := h1,
                                 heap := Broadcast h1 hp1 (RoomID c)
                                           (call_participants_msg h1 (RoomID c))\<rparr>)
                      else s)
                else s)
          else (case SaveMessage (store s) (RoomID c) (UserID c) (in_Content incoming) now of
                  (st', Inl err) \<Rightarrow> s\<lparr>store := st'\<rparr>
                | (st', Inr msg) \<Rightarrow>
                    s\<lparr>store := st',
                      heap := Broadcast (hub s) (heap s) (RoomID c) (chat_msg msg)\<rparr>))"

text \<open>
  The deferred cleanup of \<open>ReadPump\<close>, run when the loop is left: on a failed
  \<open>ReadJSON\<close>, which is also how a closed socket, a peer that went away and an expired
  read deadline show.
\<close>

definition ReadPump_exit :: "addr \<Rightarrow> state \<Rightarrow> state" where
  "ReadPump_exit a s =
     (case heap s a of
        None \<Rightarrow> s
      | Some c \<Rightarrow>
          (let h1 = Remove (hub s) c;
               hp1 = (case ListRoomMembers (store s) (RoomID c) of
                        Inl err \<Rightarrow> heap s
                      | Inr members \<Rightarrow>
                          Broadcast h1 (heap s) (RoomID c) (participants_msg members));
               hp2 = Broadcast h1 hp1 (RoomID c) (call_participants_msg h1 (RoomID c));
               hp3 = (case hp2 a of None \<Rightarrow> hp2 | Some c' \<Rightarrow> hp2(a \<mapsto> c'\<lparr>ConnClosed := True\<rparr>))
           in s\<lparr>hub := h1, heap := hp3, readers := readers s - {a}\<rparr>))"

text \<open>
  One turn of the loop of \<open>ReadPump\<close> on the message \<open>frame\<close>: when \<open>ReadJSON\<close> fails
  the loop is left and the deferred cleanup runs, otherwise the body runs and the loop
  goes on.
\<close>

definition ReadPump_frame :: "int \<Rightarrow> addr \<Rightarrow> wire_frame \<Rightarrow> state \<Rightarrow> state" where
  "ReadPump_frame now a frame s =
     (case ReadJSON frame of
        Inl err \<Rightarrow> ReadPump_exit a s
      | Inr incoming \<Rightarrow> ReadPump_body now a incoming s)"

text \<open>
  One turn of \<open>WritePump\<close> on a queued message: the message leaves the channel, and when
  writing it fails the pump returns and closes the socket.
\<close>

definition WritePump_send :: "addr \<Rightarrow> bool \<Rightarrow> state \<Rightarrow> state" where
  "WritePump_send a written s =
     (case heap s a of
        None \<Rightarrow> s
      | Some c \<Rightarrow>
          (case Send c of
             [] \<Rightarrow> s
           | msg # rest \<Rightarrow>
               s\<lparr>heap := (heap s)(a \<mapsto> c\<lparr>Send := rest,
                                           ConnClosed := ConnClosed c \<or> \<not> written\<rparr>)\<rparr>))"

definition initial :: "Store \<Rightarrow> state" where
  "initial st = \<lparr>hub = NewHub, heap = Map.empty, store = st, readers = {}\<rparr>"

text \<open>
  The states the server can be in. Each handler runs as one step. The store changes under
  the request handlers outside the hub, so any store may replace the current one.
\<close>

inductive reachable :: "state \<Rightarrow> bool" where
  r_start: "reachable (initial st)"
| r_connect: "reachable s \<Longrightarrow> heap s a = None \<Longrightarrow> reachable (snd (roomWebSocket e s r a))"
| r_frame: "reachable s \<Longrightarrow> a \<in> readers s \<Longrightarrow> heap s a = Some c \<Longrightarrow> \<not> ConnClosed c \<Longrightarrow>
          reachable (ReadPump_frame now a frame s)"
| r_exit: "reachable s \<Longrightarrow> a \<in> readers s \<Longrightarrow> reachable (ReadPump_exit a s)"
| r_write: "reachable s \<Longrightarrow> reachable (WritePump_send a written s)"
| r_crud: "reachable s \<Longrightarrow> reachable (s\<lparr>store := st\<rparr>)"

section \<open>Observations and invariants\<close>

text \<open>
  The reference count the hub stores for a user in a room (an absent entry counts as 0),
  and whether the hub holds a display record for the user.
\<close>

definition refcount :: "Hub \<Rightarrow> uuid \<Rightarrow> uuid \<Rightarrow> int" where
  "refcount h R U =
     (case callCounts h R of
        None \<Rightarrow> 0
      | Some cs \<Rightarrow> (case map_of cs U of None \<Rightarrow> 0 | Some n \<Rightarrow> n))"

definition has_record :: "Hub \<Rightarrow> uuid \<Rightarrow> uuid \<Rightarrow> bool" where
  "has_record h R U =
     (case callUsers h R of None \<Rightarrow> False | Some us \<Rightarrow> map_of us U \<noteq> None)"

text \<open>
  The invariant of the call-presence maps: a record exists exactly for a positive count;
  stored counts are positive and no stored map is empty; a room without counts has no
  records.
\<close>

definition call_inv :: "Hub \<Rightarrow> bool" where
  "call_inv h =
     ((\<forall>R U. has_record h R U \<longleftrightarrow> 0 < refcount h R U) \<and>
      (\<forall>R cs. callCounts h R = Some cs \<longrightarrow>
         cs \<noteq> [] \<and> (\<forall>U n. map_of cs U = Some n \<longrightarrow> 0 < n)) \<and>
      (\<forall>R. callCounts h R = None \<longrightarrow> callUsers h R = None))"

text \<open>
  The invariant of the registry: a stored connection set is not empty, has no connection
  twice, and holds only live clients of that room.
\<close>

definition rooms_inv :: "Hub \<Rightarrow> heap \<Rightarrow> bool" where
  "rooms_inv h hp =
     (\<forall>R clients. rooms h R = Some clients \<longrightarrow>
        clients \<noteq> [] \<and> distinct clients \<and>
        (\<forall>a \<in> set clients. \<exists>c. hp a = Some c \<and> Addr c = a \<and> RoomID c = R))"

text \<open>A later heap keeps the identity and the room of every client of an earlier one.\<close>

definition ids_kept :: "heap \<Rightarrow> heap \<Rightarrow> bool" where
  "ids_kept hp hp' =
     (\<forall>a c. hp a = Some c \<longrightarrow> (\<exists>c'. hp' a = Some c' \<and> Addr c' = Addr c \<and> RoomID c' = RoomID c))"

text \<open>The messages waiting in a client's channel.\<close>

definition queued :: "state \<Rightarrow> addr \<Rightarrow> OutgoingMessage list" where
  "queued s a = (case heap s a of None \<Rightarrow> [] | Some c \<Rightarrow> Send c)"

text \<open>
  The number of connections registered in room \<open>R\<close> that belong to user \<open>U\<close> and have
  their \<open>InCall\<close> flag set.
\<close>

definition in_call_connections :: "state \<Rightarrow> uuid \<Rightarrow> uuid \<Rightarrow> nat" where
  "in_call_connections s R U =
     length (filter (\<lambda>a. case heap s a of None \<Rightarrow> False | Some c \<Rightarrow> UserID c = U \<and> InCall c)
               (clients_of (hub s) R))"

text \<open>
  The messages \<open>roomWebSocket\<close> puts on the channel of a new client, where \<open>h1\<close> is the
  hub after the client's registration.
\<close>

definition seed :: "state \<Rightarrow> uuid \<Rightarrow> Hub \<Rightarrow> OutgoingMessage list" where
  "seed s roomID h1 =
     (case ListRoomMembers (store s) roomID of
        Inl err \<Rightarrow> [] | Inr members \<Rightarrow> [participants_msg members]) @
     (case ListMessages (store s) roomID 50 of
        Inl err \<Rightarrow> [] | Inr history \<Rightarrow> [history_msg history]) @
     [call_participants_msg h1 roomID]"

text \<open>The rows of a room in the messages table.\<close>

abbreviation room_rows :: "Store \<Rightarrow> uuid \<Rightarrow> Message list" where
  "room_rows st roomID \<equiv> filter (\<lambda>m. m_RoomID m = roomID) (tbl_messages st)"

section \<open>Example data\<close>

text \<open>
  A store with room 7, whose only member is alice (user 10), and the example run: alice
  opens two connections to room 7 (the clients at the addresses 21 and 22), joins the call
  on the first, and then the second disconnects.
\<close>

definition example_message :: "int \<Rightarrow> uuid \<Rightarrow> int \<Rightarrow> Message" where
  "example_message i roomID t =
     \<lparr>m_ID = i, m_RoomID = roomID, m_UserID = 10, m_Username = ''alice'', m_Content = ''hi'',
      m_MessageType = ''text'', m_MediaURL = [], m_CreatedAt = t\<rparr>"

definition example_store :: Store where
  "example_store =
     \<lparr>tbl_rooms = [7 \<mapsto> \<lparr>r_ID = 7, r_Name = ''lobby'', r_CreatedBy = 10, r_IsPrivate = False,
                          r_CreatedAt = 0\<rparr>],
      tbl_room_members = [(7, 10)],
      tbl_users = [10 \<mapsto> ''alice'', 11 \<mapsto> ''bob''],
      tbl_messages = [example_message 1 7 100, example_message 2 7 300,
                      example_message 3 8 250, example_message 4 7 200],
      next_message_id = 5,
      db_fails = (\<lambda>q. False),
      db_order = m_ID\<rparr>"

definition example_env :: env where
  "example_env =
     \<lparr>JWTSecret = ''secret'',
      jwt_ParseWithClaims = (\<lambda>tokenString secret.
         if secret = ''secret'' \<and> tokenString = ''alice-token''
         then Inr (\<lparr>cl_UserID = ''user-10'', cl_Username = ''alice''\<rparr>, True)
         else if secret = ''secret'' \<and> tokenString = ''bob-token''
         then Inr (\<lparr>cl_UserID = ''user-11'', cl_Username = ''bob''\<rparr>, True)
         else Inl ErrInvalidToken),
      uuid_Parse = (\<lambda>s. if s = ''room-7'' then Some 7 else if s = ''room-9'' then Some 9
                         else if s = ''user-10'' then Some 10
                         else if s = ''user-11'' then Some 11 else None),
      Upgrade_ok = True\<rparr>"

definition alice_request :: request where
  "alice_request = \<lparr>req_token = ''alice-token'', req_roomID = ''room-7''\<rparr>"

definition call_join :: wire_frame where
  "call_join = \<lparr>w_size = 20, w_text = Object (JString ''call_join'') Absent\<rparr>"

definition example_s0 :: state where
  "example_s0 = initial example_store"

definition example_s1 :: state where
  "example_s1 = snd (roomWebSocket example_env example_s0 alice_request 21)"
definition example_s2 :: state where
  "example_s2 = snd (roomWebSocket example_env example_s1 alice_request 22)"
definition example_s3 :: state where
  "example_s3 = ReadPump_frame 0 21 call_join example_s2"
definition example_s4 :: state where
  "example_s4 = ReadPump_exit 22 example_s3"

text \<open>The same run when the second connection joins the call as well.\<close>

definition example_s5 :: state where
  "example_s5 = ReadPump_frame 0 22 call_join example_s3"

text \<open>The first connection as \<open>roomWebSocket\<close> built it.\<close>

definition example_client21 :: Client where
  "example_client21 = new_client 21 7 10 ''alice''"

text \<open>
  A hub with a client whose channel is full and one whose channel is empty in room 7, and
  a client in room 8.
\<close>

definition slow_client :: Client where
  "slow_client = (new_client 31 7 10 ''alice'')\<lparr>Send := replicate 64 (participants_msg [])\<rparr>"

definition fast_client :: Client where
  "fast_client = new_client 32 7 11 ''bob''"

definition other_client :: Client where
  "other_client = new_client 33 8 11 ''bob''"

definition example_hub :: Hub where
  "example_hub = Add (Add (Add NewHub slow_client) fast_client) other_client"

definition example_heap :: heap where
  "example_heap = [31 \<mapsto> slow_client, 32 \<mapsto> fast_client, 33 \<mapsto> other_client]"

text \<open>
  Further requests: bob, who is no member of room 7; a request without token; one whose
  room identifier is no UUID; and one for a room that does not exist.
\<close>

definition bob_request :: request where
  "bob_request = \<lparr>req_token = ''bob-token'', req_roomID = ''room-7''\<rparr>"

definition anonymous_request :: request where
  "anonymous_request = \<lparr>req_token = [], req_roomID = ''room-7''\<rparr>"

definition malformed_request :: request where
  "malformed_request = \<lparr>req_token = ''alice-token'', req_roomID = ''lobby''\<rparr>"

definition missing_room_request :: request where
  "missing_room_request = \<lparr>req_token = ''alice-token'', req_roomID = ''room-9''\<rparr>"





section \<open>The call-presence maps\<close>

lemma delete_eq_Nil: "AList.delete k al = [] \<Longrightarrow> k' \<noteq> k \<Longrightarrow> map_of al k' = None"
  by (induction al) (auto simp: split: if_splits)

lemma refcount_addCallLocked:
  "refcount (addCallLocked h R U nm) R' U' =
     (if R' = R \<and> U' = U then refcount h R U + 1 else refcount h R' U')"
  by (auto simp: refcount_def addCallLocked_def Let_def update_conv' split: option.splits)

lemma has_record_addCallLocked:
  "has_record (addCallLocked h R U nm) R' U' = (R' = R \<and> U' = U \<or> has_record h R' U')"
  by (auto simp: has_record_def addCallLocked_def Let_def update_conv' split: option.splits)

lemma refcount_removeCallLocked:
  "refcount (removeCallLocked h R U) R' U' =
     (if R' = R \<and> U' = U then max 0 (refcount h R U - 1) else refcount h R' U')"
  by (auto simp: refcount_def removeCallLocked_def Let_def update_conv' delete_conv'
        dest: delete_eq_Nil split: option.splits)

lemma call_inv_NewHub: "call_inv NewHub"
  by (simp add: call_inv_def NewHub_def has_record_def refcount_def)

lemma call_inv_pos: "call_inv h \<Longrightarrow> callCounts h R = Some cs \<Longrightarrow> map_of cs U = Some n \<Longrightarrow> 0 < n"
  unfolding call_inv_def by blast

lemma call_inv_nonempty: "call_inv h \<Longrightarrow> callCounts h R = Some cs \<Longrightarrow> cs \<noteq> []"
  unfolding call_inv_def by blast

lemma call_inv_dom: "call_inv h \<Longrightarrow> callCounts h R = None \<Longrightarrow> callUsers h R = None"
  unfolding call_inv_def by blast

lemma call_inv_iff: "call_inv h \<Longrightarrow> has_record h R U \<longleftrightarrow> 0 < refcount h R U"
  unfolding call_inv_def by blast

lemma refcount_nonneg: "call_inv h \<Longrightarrow> 0 \<le> refcount h R U"
  by (auto simp: refcount_def split: option.splits dest: call_inv_pos)

lemma has_record_removeCallLocked:
  assumes "call_inv h"
  shows "has_record (removeCallLocked h R U) R' U' =
     (if R' = R \<and> U' = U then 1 < refcount h R U else has_record h R' U')"
proof (cases "callCounts h R")
  case None
  then have "removeCallLocked h R U = h" by (simp add: removeCallLocked_def)
  moreover have "refcount h R U = 0" using None by (simp add: refcount_def)
  moreover have "\<not> has_record h R U" using call_inv_dom[OF assms None] by (simp add: has_record_def)
  ultimately show ?thesis by simp
next
  case (Some counts)
  note cc = Some
  show ?thesis
  proof (cases "R' = R")
    case False
    then show ?thesis using Some
      by (auto simp: has_record_def removeCallLocked_def Let_def split: option.splits)
  next
    case True
    have iff: "\<And>V. has_record h R V \<longleftrightarrow> 0 < refcount h R V" using assms by (rule call_inv_iff)
    have rc: "\<And>V. refcount h R V = (case map_of counts V of None \<Rightarrow> 0 | Some n \<Rightarrow> n)"
      using Some by (simp add: refcount_def)
    show ?thesis
    proof (cases "callUsers h R")
      case None
      then have nr: "\<And>V. \<not> has_record h R V" by (simp add: has_record_def)
      then have z: "\<And>V. \<not> 0 < refcount h R V" using iff by simp
      have "\<not> has_record (removeCallLocked h R U) R U'" using None Some
        by (auto simp: has_record_def removeCallLocked_def Let_def split: option.splits)
      then show ?thesis using True z[of U] nr by auto
    next
      case (Some users)
      have hr: "\<And>V. has_record h R V \<longleftrightarrow> map_of users V \<noteq> None" using Some by (simp add: has_record_def)
      show ?thesis
      proof (cases "refcount h R U - 1 \<le> 0")
        case le: True
        have n: "(case map_of counts U of None \<Rightarrow> 0 | Some k \<Rightarrow> k) - 1 \<le> 0"
          using le rc[of U] by simp
        have "has_record (removeCallLocked h R U) R U' \<longleftrightarrow> (U' \<noteq> U \<and> has_record h R U')"
        proof (cases "AList.delete U counts = []")
          case e: True
          have "\<not> has_record (removeCallLocked h R U) R U'"
            using e n Some cc
            by (simp add: has_record_def removeCallLocked_def Let_def)
          moreover have "U' \<noteq> U \<Longrightarrow> \<not> has_record h R U'"
            using delete_eq_Nil[OF e, of U'] iff[of U'] rc[of U'] by simp
          ultimately show ?thesis by blast
        next
          case ne: False
          have "callUsers (removeCallLocked h R U) R = Some (AList.delete U users)"
            using ne n Some cc
            by (simp add: removeCallLocked_def Let_def)
          then show ?thesis using hr[of U'] by (auto simp: has_record_def delete_conv')
        qed
        then show ?thesis using True le by auto
      next
        case gt: False
        have "has_record (removeCallLocked h R U) R U' \<longleftrightarrow> has_record h R U'"
          using gt Some cc rc[of U]
          by (auto simp: has_record_def removeCallLocked_def Let_def split: option.splits)
        then show ?thesis using True gt iff[of U] by auto
      qed
    qed
  qed
qed

lemma stored_addCallLocked:
  assumes "call_inv h" "callCounts (addCallLocked h R U nm) R' = Some cs"
  shows "cs \<noteq> [] \<and> (\<forall>U' n. map_of cs U' = Some n \<longrightarrow> 0 < n)"
proof (cases "R' = R")
  case False
  then have "callCounts h R' = Some cs" using assms(2) by (simp add: addCallLocked_def Let_def)
  then show ?thesis using call_inv_pos[OF assms(1)] call_inv_nonempty[OF assms(1)] by blast
next
  case True
  define counts where "counts = (case callCounts h R of None \<Rightarrow> [] | Some cs \<Rightarrow> cs)"
  have cs: "cs = AList.update U (refcount h R U + 1) counts"
    using assms(2) True by (auto simp: addCallLocked_def Let_def counts_def refcount_def split: option.splits)
  have "\<And>V n. map_of counts V = Some n \<Longrightarrow> 0 < n"
    using call_inv_pos[OF assms(1)] by (auto simp: counts_def split: option.splits)
  then show ?thesis using cs refcount_nonneg[OF assms(1), of R U]
    by (auto simp: update_conv' split: if_splits)
qed

lemma stored_removeCallLocked:
  assumes "call_inv h" "callCounts (removeCallLocked h R U) R' = Some cs"
  shows "cs \<noteq> [] \<and> (\<forall>U' n. map_of cs U' = Some n \<longrightarrow> 0 < n)"
proof (cases "callCounts h R")
  case None
  then have "removeCallLocked h R U = h" by (simp add: removeCallLocked_def)
  then show ?thesis using assms call_inv_pos[OF assms(1)] call_inv_nonempty[OF assms(1)] by metis
next
  case (Some counts)
  show ?thesis
  proof (cases "R' = R")
    case False
    then have "callCounts h R' = Some cs" using assms(2) Some
      by (auto simp: removeCallLocked_def Let_def split: if_splits)
    then show ?thesis using call_inv_pos[OF assms(1)] call_inv_nonempty[OF assms(1)] by blast
  next
    case True
    have p: "\<And>V n. map_of counts V = Some n \<Longrightarrow> 0 < n"
      using call_inv_pos[OF assms(1) Some] .
    show ?thesis using assms(2) True Some p
      by (auto simp: removeCallLocked_def Let_def update_conv' delete_conv' split: if_splits)
  qed
qed

lemma users_dom_addCallLocked:
  assumes "call_inv h" "callCounts (addCallLocked h R U nm) R' = None"
  shows "callUsers (addCallLocked h R U nm) R' = None"
  using assms call_inv_dom[OF assms(1), of R']
  by (auto simp: addCallLocked_def Let_def split: if_splits)

lemma users_dom_removeCallLocked:
  assumes "call_inv h" "callCounts (removeCallLocked h R U) R' = None"
  shows "callUsers (removeCallLocked h R U) R' = None"
  using assms call_inv_dom[OF assms(1), of R']
  by (auto simp: removeCallLocked_def Let_def split: if_splits option.splits)

lemma call_invI:
  assumes "\<And>R U. has_record h R U \<longleftrightarrow> 0 < refcount h R U"
    and "\<And>R cs. callCounts h R = Some cs \<Longrightarrow> cs \<noteq> [] \<and> (\<forall>U n. map_of cs U = Some n \<longrightarrow> 0 < n)"
    and "\<And>R. callCounts h R = None \<Longrightarrow> callUsers h R = None"
  shows "call_inv h"
  unfolding call_inv_def
  by (intro conjI allI impI) (use assms in \<open>auto\<close>)

lemma call_inv_addCallLocked:
  assumes "call_inv h" shows "call_inv (addCallLocked h R U nm)"
proof -
  have "\<And>R' U'. has_record (addCallLocked h R U nm) R' U' \<longleftrightarrow> 0 < refcount (addCallLocked h R U nm) R' U'"
    using refcount_nonneg[OF assms, of R U] call_inv_iff[OF assms]
    by (auto simp: has_record_addCallLocked refcount_addCallLocked)
  then show ?thesis
    by (rule call_invI) (rule stored_addCallLocked[OF assms], assumption, rule users_dom_addCallLocked[OF assms])
qed

lemma call_inv_removeCallLocked:
  assumes "call_inv h" shows "call_inv (removeCallLocked h R U)"
proof -
  have "\<And>R' U'. has_record (removeCallLocked h R U) R' U' \<longleftrightarrow> 0 < refcount (removeCallLocked h R U) R' U'"
    using call_inv_iff[OF assms]
    by (auto simp: has_record_removeCallLocked[OF assms] refcount_removeCallLocked)
  then show ?thesis
    by (rule call_invI) (rule stored_removeCallLocked[OF assms], assumption, rule users_dom_removeCallLocked[OF assms])
qed

section \<open>The registry\<close>

lemma ids_kept_refl: "ids_kept hp hp"
  by (simp add: ids_kept_def)

lemma ids_kept_trans: "ids_kept hp hp' \<Longrightarrow> ids_kept hp' hp'' \<Longrightarrow> ids_kept hp hp''"
  unfolding ids_kept_def by fastforce

lemma rooms_inv_ids_kept: "rooms_inv h hp \<Longrightarrow> ids_kept hp hp' \<Longrightarrow> rooms_inv h hp'"
  unfolding rooms_inv_def ids_kept_def by fastforce

lemma rooms_inv_call: 
  "rooms h' = rooms h \<Longrightarrow> rooms_inv h hp \<Longrightarrow> rooms_inv h' hp"
  by (simp add: rooms_inv_def)

lemma rooms_addCallLocked: "rooms (addCallLocked h R U nm) = rooms h"
  by (simp add: addCallLocked_def Let_def)

lemma rooms_removeCallLocked: "rooms (removeCallLocked h R U) = rooms h"
  by (simp add: removeCallLocked_def Let_def split: option.splits)

lemma rooms_SetInCall: "rooms (SetInCall h c b) = rooms h"
  by (simp add: SetInCall_def rooms_addCallLocked rooms_removeCallLocked)

lemma rooms_Add:
  "rooms (Add h c) R =
     (if R = RoomID c then Some (List.insert (Addr c) (clients_of h R)) else rooms h R)"
  by (simp add: Add_def clients_of_def split: option.splits)

lemma rooms_Remove:
  "rooms (Remove h c) R =
     (if R = RoomID c \<and> rooms h R \<noteq> None
      then (if removeAll (Addr c) (clients_of h R) = [] then None
            else Some (removeAll (Addr c) (clients_of h R)))
      else rooms h R)"
  by (auto simp: Remove_def clients_of_def Let_def rooms_removeCallLocked split: option.splits)

lemma rooms_invD:
  assumes "rooms_inv h hp" "rooms h R = Some clients"
  shows "clients \<noteq> []" "distinct clients"
    "\<And>a. a \<in> set clients \<Longrightarrow> \<exists>c. hp a = Some c \<and> Addr c = a \<and> RoomID c = R"
  using assms unfolding rooms_inv_def by blast+

lemma rooms_invI:
  assumes "\<And>R clients. rooms h R = Some clients \<Longrightarrow>
             clients \<noteq> [] \<and> distinct clients \<and>
             (\<forall>a \<in> set clients. \<exists>c. hp a = Some c \<and> Addr c = a \<and> RoomID c = R)"
  shows "rooms_inv h hp"
  unfolding rooms_inv_def using assms by blast

lemma rooms_inv_clients_of:
  assumes "rooms_inv h hp"
  shows "distinct (clients_of h R)"
    "\<And>a. a \<in> set (clients_of h R) \<Longrightarrow> \<exists>c. hp a = Some c \<and> Addr c = a \<and> RoomID c = R"
proof -
  show "distinct (clients_of h R)"
    using rooms_invD(2)[OF assms] by (cases "rooms h R") (auto simp: clients_of_def)
  fix a assume "a \<in> set (clients_of h R)"
  then obtain clients where "rooms h R = Some clients" "a \<in> set clients"
    by (cases "rooms h R") (auto simp: clients_of_def)
  then show "\<exists>c. hp a = Some c \<and> Addr c = a \<and> RoomID c = R"
    using rooms_invD(3)[OF assms] by blast
qed

lemma insert_neq_Nil: "List.insert x xs \<noteq> []"
  by (auto simp: List.insert_def)

lemma rooms_inv_Add:
  assumes "rooms_inv h hp" "hp (Addr c) = Some c'" "Addr c' = Addr c" "RoomID c' = RoomID c"
  shows "rooms_inv (Add h c) hp"
proof (rule rooms_invI)
  fix R clients assume r: "rooms (Add h c) R = Some clients"
  show "clients \<noteq> [] \<and> distinct clients \<and>
        (\<forall>a \<in> set clients. \<exists>c. hp a = Some c \<and> Addr c = a \<and> RoomID c = R)"
  proof (cases "R = RoomID c")
    case False
    then have "rooms h R = Some clients" using r by (simp add: rooms_Add)
    then show ?thesis using rooms_invD[OF assms(1)] by blast
  next
    case True
    then have cl: "clients = List.insert (Addr c) (clients_of h R)" using r by (simp add: rooms_Add)
    show ?thesis unfolding cl
      using rooms_inv_clients_of[OF assms(1), where R=R] assms(2-4) True
      by (auto simp: insert_neq_Nil)
  qed
qed

lemma rooms_inv_Remove:
  assumes "rooms_inv h hp"
  shows "rooms_inv (Remove h c) hp"
proof (rule rooms_invI)
  fix R clients assume r: "rooms (Remove h c) R = Some clients"
  show "clients \<noteq> [] \<and> distinct clients \<and>
        (\<forall>a \<in> set clients. \<exists>c. hp a = Some c \<and> Addr c = a \<and> RoomID c = R)"
  proof (cases "R = RoomID c \<and> rooms h R \<noteq> None")
    case False
    then have "rooms h R = Some clients" using r by (auto simp: rooms_Remove split: if_splits)
    then show ?thesis using rooms_invD[OF assms(1)] by blast
  next
    case True
    then have cl: "clients = removeAll (Addr c) (clients_of h R)" "clients \<noteq> []"
      using r by (auto simp: rooms_Remove split: if_splits)
    show ?thesis using cl(2) unfolding cl(1)
      using rooms_inv_clients_of[OF assms(1), where R=R]
      by (auto simp: distinct_removeAll)
  qed
qed

lemma rooms_inv_NewHub: "rooms_inv NewHub hp"
  by (simp add: rooms_inv_def NewHub_def)

lemma fold_deliver:
  "distinct xs \<Longrightarrow>
   fold (\<lambda>a hp'. case hp' a of None \<Rightarrow> hp' | Some c \<Rightarrow> hp'(a \<mapsto> f c)) xs hp b =
     (if b \<in> set xs then map_option f (hp b) else hp b)"
proof (induction xs arbitrary: hp)
  case Nil
  then show ?case by simp
next
  case (Cons x xs)
  then show ?case by (cases "hp x") auto
qed

lemma Broadcast_apply:
  "distinct (clients_of h roomID) \<Longrightarrow>
   Broadcast h hp roomID m b =
     (if b \<in> set (clients_of h roomID) then map_option (try_send m) (hp b) else hp b)"
  unfolding Broadcast_def by (rule fold_deliver)

lemma fold_deliver_ids:
  assumes "\<And>c. Addr (f c) = Addr c \<and> RoomID (f c) = RoomID c"
  shows "ids_kept hp (fold (\<lambda>a hp'. case hp' a of None \<Rightarrow> hp' | Some c \<Rightarrow> hp'(a \<mapsto> f c)) xs hp)"
proof (induction xs arbitrary: hp)
  case Nil
  then show ?case by (simp add: ids_kept_refl)
next
  case (Cons x xs)
  have "ids_kept hp (case hp x of None \<Rightarrow> hp | Some c \<Rightarrow> hp(x \<mapsto> f c))"
    using assms by (auto simp: ids_kept_def split: option.splits)
  then show ?case using Cons.IH ids_kept_trans by fastforce
qed

lemma Broadcast_ids_kept: "ids_kept hp (Broadcast h hp roomID m)"
  unfolding Broadcast_def by (rule fold_deliver_ids) (simp add: try_send_def)

lemma chan_send_ids_kept: "chan_send hp a m = Some hp' \<Longrightarrow> ids_kept hp hp'"
  by (auto simp: chan_send_def ids_kept_def split: option.splits if_splits)

lemma ids_kept_alloc: "hp a = None \<Longrightarrow> ids_kept hp (hp(a \<mapsto> c))"
  by (auto simp: ids_kept_def)

lemma ids_kept_upd:
  "hp a = Some c \<Longrightarrow> Addr c' = Addr c \<Longrightarrow> RoomID c' = RoomID c \<Longrightarrow> ids_kept hp (hp(a \<mapsto> c'))"
  by (auto simp: ids_kept_def)

section \<open>The message history\<close>

declare reverse_in_place.simps [simp del]

lemma reverse_in_place_length: "length (reverse_in_place i j xs) = length xs"
proof (induction i j xs rule: reverse_in_place.induct)
  case (1 i j messages)
  show ?case
  proof (cases "i < j")
    case True
    then show ?thesis using 1 by (subst reverse_in_place.simps) simp
  next
    case False
    then show ?thesis by (subst reverse_in_place.simps) simp
  qed
qed

lemma reverse_in_place_nth:
  "0 \<le> i \<Longrightarrow> j < int (length xs) \<Longrightarrow> k < length xs \<Longrightarrow>
   reverse_in_place i j xs ! k =
     (if i \<le> int k \<and> int k \<le> j then xs ! nat (i + j - int k) else xs ! k)"
proof (induction i j xs rule: reverse_in_place.induct)
  case (1 i j messages)
  show ?case
  proof (cases "i < j")
    case False
    have unf: "reverse_in_place i j messages = messages"
      using False by (subst reverse_in_place.simps) simp
    have "i \<le> int k \<and> int k \<le> j \<Longrightarrow> nat (i + j - int k) = k" using False by linarith
    then show ?thesis unfolding unf by auto
  next
    case True
    define ys where "ys = messages[nat i := messages ! nat j, nat j := messages ! nat i]"
    have unf: "reverse_in_place i j messages = reverse_in_place (i + 1) (j - 1) ys"
      using True unfolding ys_def by (subst reverse_in_place.simps) simp
    have ih: "reverse_in_place (i + 1) (j - 1) ys ! k =
       (if i + 1 \<le> int k \<and> int k \<le> j - 1 then ys ! nat (i + 1 + (j - 1) - int k) else ys ! k)"
      using "1.IH"[OF True] "1.prems" unfolding ys_def by simp
    have e: "i + 1 + (j - 1) - int k = i + j - int k" by simp
    have ni: "nat i < length messages" and nj: "nat j < length messages" and ne: "nat i \<noteq> nat j"
      using True "1.prems" by auto
    have ys_nth: "\<And>m. m < length messages \<Longrightarrow>
        ys ! m = (if m = nat j then messages ! nat i else if m = nat i then messages ! nat j
                  else messages ! m)"
      unfolding ys_def using ni nj by (simp add: nth_list_update)
    show ?thesis
    proof (cases "i + 1 \<le> int k \<and> int k \<le> j - 1")
      case mid: True
      have "nat (i + j - int k) \<noteq> nat i" "nat (i + j - int k) \<noteq> nat j"
        "nat (i + j - int k) < length messages"
        using mid "1.prems" by linarith+
      then have "ys ! nat (i + j - int k) = messages ! nat (i + j - int k)"
        using ys_nth by simp
      moreover have "i \<le> int k \<and> int k \<le> j" using mid by linarith
      ultimately show ?thesis unfolding unf ih e using mid by simp
    next
      case out: False
      have l: "reverse_in_place i j messages ! k = ys ! k" unfolding unf ih using out by auto
      consider "int k = i" | "int k = j" | "int k < i \<or> j < int k" using out by linarith
      then show ?thesis
      proof cases
        case 1
        then have k: "k = nat i" by simp
        have "ys ! k = messages ! nat j" using ys_nth[OF ni] ne k by simp
        moreover have "nat (i + j - int k) = nat j" using 1 by simp
        moreover have "i \<le> int k \<and> int k \<le> j" using 1 True by simp
        ultimately show ?thesis using l by simp
      next
        case 2
        then have k: "k = nat j" by simp
        have "ys ! k = messages ! nat i" using ys_nth[OF nj] k by simp
        moreover have "nat (i + j - int k) = nat i" using 2 by simp
        moreover have "i \<le> int k \<and> int k \<le> j" using 2 True by simp
        ultimately show ?thesis using l by simp
      next
        case 3
        then have "k \<noteq> nat i" "k \<noteq> nat j" using "1.prems" True by linarith+
        then have "ys ! k = messages ! k" using ys_nth[OF "1.prems"(3)] by simp
        moreover have "\<not> (i \<le> int k \<and> int k \<le> j)" using 3 by linarith
        ultimately show ?thesis using l by auto
      qed
    qed
  qed
qed

lemma reverse_in_place_rev: "reverse_in_place 0 (int (length xs) - 1) xs = rev xs"
proof (rule nth_equalityI)
  show "length (reverse_in_place 0 (int (length xs) - 1) xs) = length (rev xs)"
    by (simp add: reverse_in_place_length)
next
  fix k assume "k < length (reverse_in_place 0 (int (length xs) - 1) xs)"
  then have k: "k < length xs" by (simp add: reverse_in_place_length)
  then have "nat (0 + (int (length xs) - 1) - int k) = length xs - Suc k" by linarith
  then show "reverse_in_place 0 (int (length xs) - 1) xs ! k = rev xs ! k"
    using k reverse_in_place_nth[of 0 "int (length xs) - 1" xs k] by (simp add: rev_nth)
qed

lemma ListMessages_eq:
  "ListMessages st roomID limit =
     (if db_fails st SelectMessages then Inl ErrDriver
      else Inr (rev (select_messages (tbl_messages st) (db_order st) roomID
                  (if limit \<le> 0 \<or> limit > 200 then 50 else limit))))"
  by (simp add: ListMessages_def Let_def reverse_in_place_rev)

lemma ListMessages_in_range:
  assumes "0 < limit" "limit \<le> 200" "\<not> db_fails st SelectMessages"
  shows "ListMessages st roomID limit =
     Inr (drop (length (room_rows st roomID) - nat limit)
            (sort_key m_CreatedAt (sort_key (db_order st) (room_rows st roomID))))"
  using assms by (simp add: ListMessages_eq select_messages_def rev_take)

lemma sorted_split_le:
  assumes "sorted (map f xs)" "x \<in> set (take k xs)" "y \<in> set (drop k xs)"
  shows "f x \<le> f y"
proof -
  have "sorted (map f (take k xs) @ map f (drop k xs))"
    using assms(1) by (simp flip: map_append)
  then show ?thesis using assms(2,3) by (auto simp: sorted_append)
qed

lemma rooms_inv_fresh:
  assumes "rooms_inv h hp" "hp a = None"
  shows "a \<notin> set (clients_of h R)"
  using rooms_inv_clients_of(2)[OF assms(1), of a R] assms(2) by auto

lemma clients_of_Add:
  "clients_of (Add h c) R =
     (if R = RoomID c then List.insert (Addr c) (clients_of h R) else clients_of h R)"
  by (simp add: clients_of_def rooms_Add)



lemma serve_fresh:
  assumes inv: "rooms_inv (hub s) (heap s)" and fresh: "heap s a = None"
  shows "fst (serve s R U n a) = Upgraded"
    and "hub (snd (serve s R U n a)) = Add (hub s) (new_client a R U n)"
    and "store (snd (serve s R U n a)) = store s"
    and "readers (snd (serve s R U n a)) = insert a (readers s)"
    and "heap (snd (serve s R U n a)) a =
           Some ((new_client a R U n)\<lparr>Send := seed s R (Add (hub s) (new_client a R U n))\<rparr>)"
    and "\<And>b. b \<noteq> a \<Longrightarrow> heap (snd (serve s R U n a)) b =
           (case ListRoomMembers (store s) R of
              Inl err \<Rightarrow> heap s b
            | Inr members \<Rightarrow>
                if b \<in> set (clients_of (hub s) R)
                then map_option (try_send (participants_msg members)) (heap s b)
                else heap s b)"
proof -
  let ?c = "new_client a R U n"
  let ?h1 = "Add (hub s) ?c"
  have nin: "a \<notin> set (clients_of (hub s) R)" using rooms_inv_fresh[OF inv fresh] .
  have cl: "clients_of ?h1 R = a # clients_of (hub s) R"
    using nin by (simp add: clients_of_Add new_client_def)
  have d: "distinct (clients_of ?h1 R)"
    using nin rooms_inv_clients_of(1)[OF inv, of R] by (simp add: cl)
  note B = Broadcast_apply[OF d]
  have c_simps: "Send ?c = []" "SendCap ?c = 64" by (simp_all add: new_client_def)
  show "fst (serve s R U n a) = Upgraded"
    by (cases "ListRoomMembers (store s) R"; cases "ListMessages (store s) R 50")
       (simp_all add: serve_def Let_def chan_send_def B cl try_send_def c_simps)
  show "hub (snd (serve s R U n a)) = ?h1"
    by (cases "ListRoomMembers (store s) R"; cases "ListMessages (store s) R 50")
       (simp_all add: serve_def Let_def chan_send_def B cl try_send_def c_simps)
  show "store (snd (serve s R U n a)) = store s"
    by (cases "ListRoomMembers (store s) R"; cases "ListMessages (store s) R 50")
       (simp_all add: serve_def Let_def chan_send_def B cl try_send_def c_simps)
  show "readers (snd (serve s R U n a)) = insert a (readers s)"
    by (cases "ListRoomMembers (store s) R"; cases "ListMessages (store s) R 50")
       (simp_all add: serve_def Let_def chan_send_def B cl try_send_def c_simps)
  show "heap (snd (serve s R U n a)) a = Some (?c\<lparr>Send := seed s R ?h1\<rparr>)"
    by (cases "ListRoomMembers (store s) R"; cases "ListMessages (store s) R 50")
       (simp_all add: serve_def Let_def chan_send_def B cl try_send_def c_simps seed_def)
  fix b assume "b \<noteq> a"
  then show "heap (snd (serve s R U n a)) b =
           (case ListRoomMembers (store s) R of
              Inl err \<Rightarrow> heap s b
            | Inr members \<Rightarrow>
                if b \<in> set (clients_of (hub s) R)
                then map_option (try_send (participants_msg members)) (heap s b)
                else heap s b)"
    by (cases "ListRoomMembers (store s) R"; cases "ListMessages (store s) R 50")
       (simp_all add: serve_def Let_def chan_send_def B cl try_send_def c_simps)
qed

section \<open>Reachable states\<close>

lemma call_inv_cong:
  "callCounts h' = callCounts h \<Longrightarrow> callUsers h' = callUsers h \<Longrightarrow> call_inv h' = call_inv h"
  by (simp add: call_inv_def has_record_def refcount_def)

lemma call_inv_Add: "call_inv (Add h c) = call_inv h"
  by (rule call_inv_cong) (simp_all add: Add_def)

lemma call_inv_Remove: "call_inv h \<Longrightarrow> call_inv (Remove h c)"
proof (cases "rooms h (RoomID c)")
  case None
  assume "call_inv h"
  then show ?thesis using None by (simp add: Remove_def)
next
  case (Some clients)
  assume ci: "call_inv h"
  let ?h0 = "h\<lparr>rooms := (rooms h)(RoomID c \<mapsto> removeAll (Addr c) clients)\<rparr>"
  let ?h' = "removeCallLocked ?h0 (RoomID c) (UserID c)"
  have "call_inv ?h0 = call_inv h" by (rule call_inv_cong) simp_all
  then have 1: "call_inv ?h'" using ci call_inv_removeCallLocked by blast
  have 2: "call_inv (?h'\<lparr>rooms := (rooms ?h')(RoomID c := None)\<rparr>) = call_inv ?h'"
    by (rule call_inv_cong) simp_all
  have "Remove h c = (if removeAll (Addr c) clients = []
                       then ?h'\<lparr>rooms := (rooms ?h')(RoomID c := None)\<rparr> else ?h')"
    using Some by (simp add: Remove_def Let_def)
  then show ?thesis using 1 2 by (cases "removeAll (Addr c) clients = []") simp_all
qed

lemma call_inv_SetInCall: "call_inv h \<Longrightarrow> call_inv (SetInCall h c b)"
  by (simp add: SetInCall_def call_inv_addCallLocked call_inv_removeCallLocked)

lemma hub_serve: "hub (snd (serve s R U n a)) = Add (hub s) (new_client a R U n)"
  by (simp add: serve_def Let_def split: option.splits sum.splits)

lemma roomWebSocket_cases:
  "roomWebSocket e s r a = (resp, s') \<Longrightarrow>
     (s' = s \<and> resp \<noteq> Upgraded \<and> resp \<noteq> Blocked) \<or>
     (\<exists>R U n. serve s R U n a = (resp, s'))"
  by (auto simp: roomWebSocket_def split: if_splits sum.splits option.splits)

lemma roomWebSocket_snd:
  "snd (roomWebSocket e s r a) = s \<or> (\<exists>R U n. snd (roomWebSocket e s r a) = snd (serve s R U n a))"
  using roomWebSocket_cases[of e s r a "fst (roomWebSocket e s r a)" "snd (roomWebSocket e s r a)"]
  by (metis prod.collapse)

lemma new_client_sel:
  "Addr (new_client a R U n) = a" "RoomID (new_client a R U n) = R"
  "UserID (new_client a R U n) = U" "Username (new_client a R U n) = n"
  "InCall (new_client a R U n) = False" "Send (new_client a R U n) = []"
  "SendCap (new_client a R U n) = 64" "ConnClosed (new_client a R U n) = False"
  by (simp_all add: new_client_def)

lemma hub_ReadPump_body:
  "hub (ReadPump_body now a incoming s) = hub s \<or>
   (\<exists>c b. hub (ReadPump_body now a incoming s) = SetInCall (hub s) c b)"
  by (auto simp: ReadPump_body_def Let_def split: option.splits prod.splits sum.splits)

lemma ReadPump_frame_cases:
  "ReadPump_frame now a frame s = ReadPump_exit a s \<or>
   (\<exists>incoming. ReadJSON frame = Inr incoming \<and>
      ReadPump_frame now a frame s = ReadPump_body now a incoming s)"
  by (cases "ReadJSON frame") (simp_all add: ReadPump_frame_def)

lemma hub_ReadPump_exit:
  "hub (ReadPump_exit a s) = hub s \<or> (\<exists>c. hub (ReadPump_exit a s) = Remove (hub s) c)"
  by (auto simp: ReadPump_exit_def Let_def split: option.splits)

lemma hub_WritePump_send: "hub (WritePump_send a w s) = hub s"
  by (simp add: WritePump_send_def split: option.splits list.splits)

lemma reachable_call_inv: "reachable s \<Longrightarrow> call_inv (hub s)"
proof (induction rule: reachable.induct)
  case (r_start st)
  then show ?case by (simp add: initial_def call_inv_NewHub)
next
  case (r_connect s a e r)
  then show ?case using roomWebSocket_snd[of e s r a] by (auto simp: hub_serve call_inv_Add)
next
  case (r_frame s a c now frame)
  then show ?case
    using ReadPump_frame_cases[of now a frame s] hub_ReadPump_body[of now a _ s]
      hub_ReadPump_exit[of a s]
    by (metis call_inv_SetInCall call_inv_Remove)
next
  case (r_exit s a)
  then show ?case using hub_ReadPump_exit[of a s] by (auto simp: call_inv_Remove)
next
  case (r_write s a written)
  then show ?case by (simp add: hub_WritePump_send)
next
  case (r_crud s st)
  then show ?case by simp
qed

lemma ids_kept_serve:
  assumes inv: "rooms_inv (hub s) (heap s)" and fresh: "heap s a = None"
  shows "ids_kept (heap s) (heap (snd (serve s R U n a)))"
  unfolding ids_kept_def
proof (intro allI impI)
  fix b c assume b: "heap s b = Some c"
  then have "b \<noteq> a" using fresh by auto
  then show "\<exists>c'. heap (snd (serve s R U n a)) b = Some c' \<and> Addr c' = Addr c \<and> RoomID c' = RoomID c"
    using b serve_fresh(6)[OF inv fresh, of b R U n]
    by (auto simp: try_send_def split: sum.splits)
qed

lemma rooms_inv_serve:
  assumes inv: "rooms_inv (hub s) (heap s)" and fresh: "heap s a = None"
  shows "rooms_inv (hub (snd (serve s R U n a))) (heap (snd (serve s R U n a)))"
proof -
  have "rooms_inv (hub s) (heap (snd (serve s R U n a)))"
    using rooms_inv_ids_kept[OF inv ids_kept_serve[OF inv fresh]] .
  then show ?thesis unfolding hub_serve
  proof (rule rooms_inv_Add)
    show "heap (snd (serve s R U n a)) (Addr (new_client a R U n)) =
            Some ((new_client a R U n)\<lparr>Send := seed s R (Add (hub s) (new_client a R U n))\<rparr>)"
      using serve_fresh(5)[OF inv fresh, of R U n] by (simp add: new_client_sel)
  qed simp_all
qed

lemma rooms_inv_body:
  assumes "rooms_inv (hub s) (heap s)"
  shows "rooms_inv (hub (ReadPump_body now a incoming s)) (heap (ReadPump_body now a incoming s))"
proof -
  have k: "ids_kept (heap s) (heap (ReadPump_body now a incoming s))"
    by (auto simp: ReadPump_body_def Let_def ids_kept_refl Broadcast_ids_kept
        intro!: ids_kept_trans[OF ids_kept_upd Broadcast_ids_kept]
        split: option.splits prod.splits sum.splits)
  have r: "rooms (hub (ReadPump_body now a incoming s)) = rooms (hub s)"
    using hub_ReadPump_body[of now a incoming s] by (auto simp: rooms_SetInCall)
  show ?thesis using rooms_inv_call[OF r rooms_inv_ids_kept[OF assms k]] .
qed

lemma rooms_inv_exit:
  assumes "rooms_inv (hub s) (heap s)"
  shows "rooms_inv (hub (ReadPump_exit a s)) (heap (ReadPump_exit a s))"
proof (cases "heap s a")
  case None
  then show ?thesis using assms by (simp add: ReadPump_exit_def)
next
  case (Some c)
  let ?h1 = "Remove (hub s) c"
  let ?hp1 = "case ListRoomMembers (store s) (RoomID c) of
                        Inl err \<Rightarrow> heap s
                      | Inr members \<Rightarrow>
                          Broadcast ?h1 (heap s) (RoomID c) (participants_msg members)"
  let ?hp2 = "Broadcast ?h1 ?hp1 (RoomID c) (call_participants_msg ?h1 (RoomID c))"
  let ?hp3 = "case ?hp2 a of None \<Rightarrow> ?hp2 | Some c' \<Rightarrow> ?hp2(a \<mapsto> c'\<lparr>ConnClosed := True\<rparr>)"
  have 1: "ids_kept (heap s) ?hp1"
    by (cases "ListRoomMembers (store s) (RoomID c)") (simp_all add: ids_kept_refl Broadcast_ids_kept)
  have 2: "ids_kept ?hp1 ?hp2" by (rule Broadcast_ids_kept)
  have 3: "ids_kept ?hp2 ?hp3" by (cases "?hp2 a") (auto simp: ids_kept_def)
  have k: "ids_kept (heap s) ?hp3" using ids_kept_trans[OF ids_kept_trans[OF 1 2] 3] .
  have e: "ReadPump_exit a s = s\<lparr>hub := ?h1, heap := ?hp3, readers := readers s - {a}\<rparr>"
    using Some by (simp add: ReadPump_exit_def Let_def)
  show ?thesis unfolding e using rooms_inv_ids_kept[OF rooms_inv_Remove[OF assms, of c] k] by simp
qed

lemma rooms_inv_frame:
  assumes "rooms_inv (hub s) (heap s)"
  shows "rooms_inv (hub (ReadPump_frame now a frame s)) (heap (ReadPump_frame now a frame s))"
  using ReadPump_frame_cases[of now a frame s] rooms_inv_exit[OF assms, of a]
    rooms_inv_body[OF assms, of now a]
  by auto

lemma rooms_inv_write:
  assumes "rooms_inv (hub s) (heap s)"
  shows "rooms_inv (hub (WritePump_send a w s)) (heap (WritePump_send a w s))"
proof -
  have k: "ids_kept (heap s) (heap (WritePump_send a w s))"
    by (auto simp: WritePump_send_def ids_kept_def split: option.splits list.splits)
  show ?thesis using rooms_inv_ids_kept[OF assms k] by (simp add: hub_WritePump_send rooms_inv_def)
qed

lemma reachable_rooms_inv: "reachable s \<Longrightarrow> rooms_inv (hub s) (heap s)"
proof (induction rule: reachable.induct)
  case (r_start st)
  then show ?case by (simp add: initial_def rooms_inv_NewHub)
next
  case (r_connect s a e r)
  then show ?case using roomWebSocket_snd[of e s r a] rooms_inv_serve by auto
next
  case (r_frame s a c now frame)
  then show ?case by (simp add: rooms_inv_frame)
next
  case (r_exit s a)
  then show ?case by (simp add: rooms_inv_exit)
next
  case (r_write s a written)
  then show ?case by (simp add: rooms_inv_write)
next
  case (r_crud s st)
  then show ?case by simp
qed

section \<open>The example run\<close>

lemma example_members: "ListRoomMembers example_store 7 = Inr [\<lparr>rm_ID = 10, rm_Username = ''alice''\<rparr>]"
  by (simp add: ListRoomMembers_def example_store_def)

lemma example_db_ok: "\<not> db_fails example_store q"
  by (simp add: example_store_def)

lemma example_select:
  "select_messages (tbl_messages example_store) (db_order example_store) 7 2 =
     [example_message 2 7 300, example_message 4 7 200]"
  "select_messages (tbl_messages example_store) (db_order example_store) 7 50 =
     [example_message 2 7 300, example_message 4 7 200, example_message 1 7 100]"
  by (simp_all add: select_messages_def example_store_def example_message_def)

lemma example_ListMessages:
  "ListMessages example_store 7 50 =
     Inr [example_message 1 7 100, example_message 4 7 200, example_message 2 7 300]"
  "ListMessages example_store 7 2 = Inr [example_message 4 7 200, example_message 2 7 300]"
  by (simp_all add: ListMessages_eq example_select example_db_ok)

lemma example_alice:
  "roomWebSocket example_env s alice_request a =
     (if store s = example_store then serve s 7 10 ''alice'' a else roomWebSocket example_env s alice_request a)"
  by (simp add: roomWebSocket_def example_env_def alice_request_def ParseJWT_def GetRoomByID_def
      IsRoomMember_def example_store_def)

lemmas example_simps = example_s0_def example_alice initial_def serve_def Let_def
     example_members example_ListMessages Broadcast_def clients_of_def Add_def NewHub_def new_client_def chan_send_def try_send_def
     ReadPump_frame_def ReadPump_body_def ReadJSON_def readLimit_def ReadPump_exit_def call_join_def SetInCall_def addCallLocked_def removeCallLocked_def Remove_def
     CallParticipants_def call_participants_msg_def

section \<open>The claims\<close>

lemma length_select_messages: "length (select_messages tbl rank roomID limit) \<le> nat limit"
  by (simp add: select_messages_def)

text \<open>
  Claim C10. A requested limit that is zero, negative or greater than 200 gives exactly the
  listing of limit 50; hence, for every limit, a returned list is never longer than
  \<open>max limit 50\<close> and never longer than 200.
\<close>

theorem ListMessages_limit_out_of_range:
  "(limit \<le> 0 \<or> 200 < limit \<longrightarrow> ListMessages st roomID limit = ListMessages st roomID 50) \<and>
   (\<forall>ms. ListMessages st roomID limit = Inr ms \<longrightarrow>
      int (length ms) \<le> max limit 50 \<and> length ms \<le> 200)"
proof (intro conjI allI impI)
  assume "limit \<le> 0 \<or> 200 < limit"
  then show "ListMessages st roomID limit = ListMessages st roomID 50"
    by (auto simp: ListMessages_eq)
next
  fix ms assume ok: "ListMessages st roomID limit = Inr ms"
  define l where "l = (if limit \<le> 0 \<or> limit > 200 then 50 else limit)"
  have ms: "ms = rev (select_messages (tbl_messages st) (db_order st) roomID l)"
    using ok unfolding ListMessages_eq l_def by (auto split: if_splits)
  have len: "length ms \<le> nat l" unfolding ms using length_select_messages by simp
  have "0 < l" "l \<le> 200" "l \<le> max limit 50" unfolding l_def by auto
  then show "int (length ms) \<le> max limit 50" "length ms \<le> 200" using len by linarith+
qed

theorem ListMessages_limit_out_of_range_witness:
  "ListMessages example_store 7 0 = ListMessages example_store 7 50 \<and>
   ListMessages example_store 7 (- 7) = ListMessages example_store 7 50 \<and>
   ListMessages example_store 7 201 = ListMessages example_store 7 50 \<and>
   ListMessages example_store 7 50 =
     Inr [example_message 1 7 100, example_message 4 7 200, example_message 2 7 300] \<and>
   ListMessages example_store 7 2 = Inr [example_message 4 7 200, example_message 2 7 300] \<and>
   int (length [example_message 4 7 200, example_message 2 7 300]) \<le> max 2 50 \<and>
   length [example_message 4 7 200, example_message 2 7 300] \<le> 200"
  using ListMessages_limit_out_of_range[of 0 example_store 7]
    ListMessages_limit_out_of_range[of "- 7" example_store 7]
    ListMessages_limit_out_of_range[of 201 example_store 7]
    ListMessages_limit_out_of_range[of 2 example_store 7]
  by (simp add: example_ListMessages)

lemmas example_states = example_s5_def example_s4_def example_s3_def example_s2_def example_s1_def

lemma example_fresh:
  "heap example_s0 21 = None" "heap example_s1 22 = None"
  by (simp_all add: example_states example_simps)

lemma example_readers:
  "21 \<in> readers example_s2" "22 \<in> readers example_s3"
  by (simp_all add: example_states example_simps)

lemma example_open:
  "map_option ConnClosed (heap example_s2 21) = Some False"
  "map_option ConnClosed (heap example_s3 22) = Some False"
  by (simp_all add: example_states example_simps)

lemma reachable_example_s3: "reachable example_s3"
proof -
  have 0: "reachable example_s0" unfolding example_s0_def by (rule r_start)
  have 1: "reachable example_s1" unfolding example_s1_def
    using 0 example_fresh(1) by (rule r_connect)
  have 2: "reachable example_s2" unfolding example_s2_def
    using 1 example_fresh(2) by (rule r_connect)
  obtain c where c: "heap example_s2 21 = Some c" "\<not> ConnClosed c"
    using example_open(1) by auto
  show ?thesis unfolding example_s3_def
    using 2 example_readers(1) c by (rule r_frame)
qed

lemma reachable_example_s4: "reachable example_s4"
  unfolding example_s4_def using reachable_example_s3 example_readers(2) by (rule r_exit)

lemma reachable_example_s5: "reachable example_s5"
proof -
  obtain c where c: "heap example_s3 22 = Some c" "\<not> ConnClosed c"
    using example_open(2) by auto
  show ?thesis unfolding example_s5_def
    using reachable_example_s3 example_readers(2) c by (rule r_frame)
qed

text \<open>
  Claim C1 (the count of a user equals the number of their registered in-call
  connections) fails on the code. In the example run alice joins the call on connection 21;
  connection 22, which never joined, then disconnects. \<open>Remove\<close> calls
  \<open>removeCallLocked\<close> without looking at the \<open>InCall\<close> flag, so the stored count drops
  from 1 to 0 and alice leaves the call list while connection 21 is still registered and
  in the call.
\<close>

theorem Remove_of_idle_connection_drops_presence:
  "reachable example_s3 \<and> reachable example_s4 \<and> example_s4 = ReadPump_exit 22 example_s3 \<and>
   map_option InCall (heap example_s3 22) = Some False \<and>
   in_call_connections example_s3 7 10 = 1 \<and> refcount (hub example_s3) 7 10 = 1 \<and>
   clients_of (hub example_s4) 7 = [21] \<and>
   map_option InCall (heap example_s4 21) = Some True \<and>
   in_call_connections example_s4 7 10 = 1 \<and> refcount (hub example_s4) 7 10 = 0 \<and>
   CallParticipants (hub example_s4) 7 = []"
  using reachable_example_s3 reachable_example_s4
  by (simp add: in_call_connections_def refcount_def) (simp add: example_states example_simps)

text \<open>
  Claim C2 (\<open>Remove\<close> twice is \<open>Remove\<close> once) fails on the code. With both connections of
  alice in the call the count is 2; the first \<open>Remove\<close> of connection 21 makes it 1 and the
  second, finding the room still present, makes it 0, although connection 22 is still
  registered and in the call.
\<close>

theorem Remove_twice_decrements_twice:
  "reachable example_s5 \<and>
   map_option Addr (heap example_s5 21) = Some (Addr example_client21) \<and>
   map_option RoomID (heap example_s5 21) = Some (RoomID example_client21) \<and>
   map_option UserID (heap example_s5 21) = Some (UserID example_client21) \<and>
   map_option InCall (heap example_s5 22) = Some True \<and>
   refcount (hub example_s5) 7 10 = 2 \<and>
   clients_of (Remove (hub example_s5) example_client21) 7 = [22] \<and>
   refcount (Remove (hub example_s5) example_client21) 7 10 = 1 \<and>
   clients_of (Remove (Remove (hub example_s5) example_client21) example_client21) 7 = [22] \<and>
   refcount (Remove (Remove (hub example_s5) example_client21) example_client21) 7 10 = 0 \<and>
   Remove (Remove (hub example_s5) example_client21) example_client21
     \<noteq> Remove (hub example_s5) example_client21"
proof -
  have 1: "refcount (Remove (hub example_s5) example_client21) 7 10 = 1"
    by (simp add: refcount_def) (simp add: example_states example_simps example_client21_def)
  have 0: "refcount (Remove (Remove (hub example_s5) example_client21) example_client21) 7 10 = 0"
    by (simp add: refcount_def) (simp add: example_states example_simps example_client21_def)
  have ne: "Remove (Remove (hub example_s5) example_client21) example_client21
     \<noteq> Remove (hub example_s5) example_client21"
    using 0 1 by auto
  show ?thesis using reachable_example_s5 0 1 ne
    by (simp add: refcount_def) (simp add: example_states example_simps example_client21_def)
qed

lemma nonempty_has_key: "cs \<noteq> [] \<Longrightarrow> \<exists>k v. map_of cs k = Some v"
  by (cases cs) auto

lemma call_inv_no_users:
  assumes "call_inv h" "\<forall>V. refcount h R V = 0"
  shows "callCounts h R = None \<and> callUsers h R = None"
proof (cases "callCounts h R")
  case None
  then show ?thesis using call_inv_dom[OF assms(1)] by simp
next
  case (Some cs)
  then obtain k v where kv: "map_of cs k = Some v"
    using nonempty_has_key call_inv_nonempty[OF assms(1) Some] by blast
  then have "0 < v" using call_inv_pos[OF assms(1) Some] by blast
  moreover have "refcount h R k = v" using Some kv by (simp add: refcount_def)
  ultimately show ?thesis using assms(2) by auto
qed

text \<open>
  Claim C6. In every reachable state a user has a display record for a room exactly when
  their count for the room is positive. \<open>SetInCall\<close> (both ways), \<open>Add\<close> and \<open>Remove\<close>
  keep the invariant of the call-presence maps, which contains that equivalence; a count
  of 1 that is decremented leaves count 0 and no record; and when no user of the room has
  a count left, the room's entries are gone from both maps.
\<close>

theorem call_record_iff_positive_count:
  "(reachable s \<longrightarrow> (has_record (hub s) R U \<longleftrightarrow> 0 < refcount (hub s) R U)) \<and>
   (call_inv h \<longrightarrow>
      (has_record h R U \<longleftrightarrow> 0 < refcount h R U) \<and>
      call_inv (SetInCall h c True) \<and>
      (has_record (SetInCall h c True) R U \<longleftrightarrow> 0 < refcount (SetInCall h c True) R U) \<and>
      call_inv (SetInCall h c False) \<and>
      (has_record (SetInCall h c False) R U \<longleftrightarrow> 0 < refcount (SetInCall h c False) R U) \<and>
      call_inv (Add h c) \<and>
      (has_record (Add h c) R U \<longleftrightarrow> 0 < refcount (Add h c) R U) \<and>
      call_inv (Remove h c) \<and>
      (has_record (Remove h c) R U \<longleftrightarrow> 0 < refcount (Remove h c) R U) \<and>
      (refcount h R U = 1 \<longrightarrow>
         refcount (removeCallLocked h R U) R U = 0 \<and> \<not> has_record (removeCallLocked h R U) R U) \<and>
      ((\<forall>V. refcount (removeCallLocked h R U) R V = 0) \<longrightarrow>
         callCounts (removeCallLocked h R U) R = None \<and>
         callUsers (removeCallLocked h R U) R = None))"
proof (intro conjI impI)
  assume "reachable s"
  then show "has_record (hub s) R U \<longleftrightarrow> 0 < refcount (hub s) R U"
    using call_inv_iff[OF reachable_call_inv] by simp
next
  assume ci: "call_inv h"
  show "has_record h R U \<longleftrightarrow> 0 < refcount h R U" using call_inv_iff[OF ci] .
  show t: "call_inv (SetInCall h c True)" and f: "call_inv (SetInCall h c False)"
    using ci by (rule call_inv_SetInCall)+
  show a: "call_inv (Add h c)" using ci by (simp add: call_inv_Add)
  show r: "call_inv (Remove h c)" using ci by (rule call_inv_Remove)
  show "has_record (SetInCall h c True) R U \<longleftrightarrow> 0 < refcount (SetInCall h c True) R U"
    using call_inv_iff[OF t] .
  show "has_record (SetInCall h c False) R U \<longleftrightarrow> 0 < refcount (SetInCall h c False) R U"
    using call_inv_iff[OF f] .
  show "has_record (Add h c) R U \<longleftrightarrow> 0 < refcount (Add h c) R U"
    using call_inv_iff[OF a] .
  show "has_record (Remove h c) R U \<longleftrightarrow> 0 < refcount (Remove h c) R U"
    using call_inv_iff[OF r] .
  {
    assume "refcount h R U = 1"
    then show "refcount (removeCallLocked h R U) R U = 0"
      by (simp add: refcount_removeCallLocked)
  next
    assume "refcount h R U = 1"
    then show "\<not> has_record (removeCallLocked h R U) R U"
      by (simp add: has_record_removeCallLocked[OF ci])
  next
    assume z: "\<forall>V. refcount (removeCallLocked h R U) R V = 0"
    show "callCounts (removeCallLocked h R U) R = None"
      "callUsers (removeCallLocked h R U) R = None"
      using call_inv_no_users[OF call_inv_removeCallLocked[OF ci] z] by simp_all
  }
qed

lemma example_s3_calls:
  "refcount (hub example_s3) 7 10 = 1" "has_record (hub example_s3) 7 10"
  "\<forall>V. refcount (removeCallLocked (hub example_s3) 7 10) 7 V = 0"
  by (simp_all add: refcount_def has_record_def) (simp_all add: example_states example_simps)

theorem call_record_iff_positive_count_witness:
  "reachable example_s3 \<and> has_record (hub example_s3) 7 10 \<and>
   0 < refcount (hub example_s3) 7 10 \<and> call_inv (hub example_s3) \<and>
   call_inv (SetInCall (hub example_s3) example_client21 True) \<and>
   call_inv (SetInCall (hub example_s3) example_client21 False) \<and>
   call_inv (Add (hub example_s3) example_client21) \<and>
   call_inv (Remove (hub example_s3) example_client21) \<and>
   refcount (hub example_s3) 7 10 = 1 \<and>
   refcount (removeCallLocked (hub example_s3) 7 10) 7 10 = 0 \<and>
   \<not> has_record (removeCallLocked (hub example_s3) 7 10) 7 10 \<and>
   callCounts (removeCallLocked (hub example_s3) 7 10) 7 = None \<and>
   callUsers (removeCallLocked (hub example_s3) 7 10) 7 = None"
  using call_record_iff_positive_count[of example_s3 7 10 "hub example_s3" example_client21]
    reachable_example_s3 reachable_call_inv[OF reachable_example_s3] example_s3_calls
  by simp

text \<open>
  Claim C7. In every reachable state every room of the registry has a connection set that
  is not empty, holds no connection twice and holds only clients whose \<open>RoomID\<close> is that
  room. \<open>Add\<close> (of a live client) and \<open>Remove\<close> keep this, and \<open>Remove\<close> leaves no empty
  set behind.
\<close>

theorem registry_sets_nonempty_distinct_same_room:
  "(reachable s \<longrightarrow>
      (\<forall>R clients. rooms (hub s) R = Some clients \<longrightarrow>
         clients \<noteq> [] \<and> distinct clients \<and>
         (\<forall>a \<in> set clients. \<exists>c. heap s a = Some c \<and> Addr c = a \<and> RoomID c = R))) \<and>
   (rooms_inv h hp \<and> map_option Addr (hp (Addr c)) = Some (Addr c) \<and>
      map_option RoomID (hp (Addr c)) = Some (RoomID c) \<longrightarrow> rooms_inv (Add h c) hp) \<and>
   (rooms_inv h hp \<longrightarrow> rooms_inv (Remove h c) hp) \<and>
   (rooms_inv h hp \<longrightarrow>
      (\<forall>R clients. rooms (Remove h c) R = Some clients \<longrightarrow> clients \<noteq> []))"
proof (intro conjI impI)
  assume "reachable s"
  then show "\<forall>R clients. rooms (hub s) R = Some clients \<longrightarrow>
         clients \<noteq> [] \<and> distinct clients \<and>
         (\<forall>a \<in> set clients. \<exists>c. heap s a = Some c \<and> Addr c = a \<and> RoomID c = R)"
    using reachable_rooms_inv unfolding rooms_inv_def by blast
next
  assume a: "rooms_inv h hp \<and> map_option Addr (hp (Addr c)) = Some (Addr c) \<and>
      map_option RoomID (hp (Addr c)) = Some (RoomID c)"
  then obtain c' where "hp (Addr c) = Some c'" "Addr c' = Addr c" "RoomID c' = RoomID c" by auto
  then show "rooms_inv (Add h c) hp" using a rooms_inv_Add by blast
next
  assume "rooms_inv h hp"
  then show "rooms_inv (Remove h c) hp" by (rule rooms_inv_Remove)
next
  assume "rooms_inv h hp"
  then have "rooms_inv (Remove h c) hp" by (rule rooms_inv_Remove)
  then show "\<forall>R clients. rooms (Remove h c) R = Some clients \<longrightarrow> clients \<noteq> []"
    unfolding rooms_inv_def by blast
qed

lemma example_s3_rooms:
  "rooms (hub example_s3) 7 = Some [22, 21]"
  "map_option Addr (heap example_s3 21) = Some 21" "map_option RoomID (heap example_s3 21) = Some 7"
  "map_option Addr (heap example_s3 22) = Some 22" "map_option RoomID (heap example_s3 22) = Some 7"
  "rooms (Remove (hub example_s4) example_client21) 7 = None"
  by (simp_all add: example_states example_simps example_client21_def)

theorem registry_sets_nonempty_distinct_same_room_witness:
  "reachable example_s3 \<and> rooms (hub example_s3) 7 = Some [22, 21] \<and>
   [22, 21] \<noteq> [] \<and> distinct [22, 21 :: addr] \<and>
   map_option RoomID (heap example_s3 21) = Some 7 \<and>
   map_option RoomID (heap example_s3 22) = Some 7 \<and>
   rooms_inv (hub example_s3) (heap example_s3) \<and>
   rooms_inv (Add (hub example_s3) example_client21) (heap example_s3) \<and>
   rooms_inv (Remove (hub example_s3) example_client21) (heap example_s3) \<and>
   rooms_inv (hub example_s4) (heap example_s4) \<and>
   rooms (Remove (hub example_s4) example_client21) 7 = None"
  using registry_sets_nonempty_distinct_same_room[of example_s3 "hub example_s3" "heap example_s3" example_client21]
    registry_sets_nonempty_distinct_same_room[of example_s4 "hub example_s4" "heap example_s4" example_client21]
    reachable_example_s3 reachable_rooms_inv[OF reachable_example_s3]
    reachable_rooms_inv[OF reachable_example_s4] example_s3_rooms
  by (simp add: example_client21_def new_client_sel)









text \<open>
  Claim C4. \<open>Broadcast\<close> to a room gives every registered client of the room the message
  when its channel has room, and closes its socket without enqueueing when the channel is
  full; what happens to one client does not depend on the others, and clients outside the
  room, in particular those of other rooms, are untouched.
\<close>

theorem Broadcast_delivers_or_evicts:
  assumes "rooms_inv h hp"
  shows "(\<forall>a c. a \<in> set (clients_of h roomID) \<and> hp a = Some c \<longrightarrow>
            (length (Send c) < SendCap c \<longrightarrow>
               Broadcast h hp roomID m a = Some (c\<lparr>Send := Send c @ [m]\<rparr>)) \<and>
            (\<not> length (Send c) < SendCap c \<longrightarrow>
               Broadcast h hp roomID m a = Some (c\<lparr>ConnClosed := True\<rparr>))) \<and>
         (\<forall>a. a \<notin> set (clients_of h roomID) \<longrightarrow> Broadcast h hp roomID m a = hp a) \<and>
         (\<forall>R a. R \<noteq> roomID \<and> a \<in> set (clients_of h R) \<longrightarrow> Broadcast h hp roomID m a = hp a)"
proof -
  have d: "distinct (clients_of h roomID)" using rooms_inv_clients_of(1)[OF assms] .
  note B = Broadcast_apply[OF d]
  have other: "\<And>R a. R \<noteq> roomID \<Longrightarrow> a \<in> set (clients_of h R) \<Longrightarrow> a \<notin> set (clients_of h roomID)"
  proof
    fix R a assume "R \<noteq> roomID" "a \<in> set (clients_of h R)" "a \<in> set (clients_of h roomID)"
    then show False
      using rooms_inv_clients_of(2)[OF assms, where a=a and R=R]
        rooms_inv_clients_of(2)[OF assms, where a=a and R=roomID] by auto
  qed
  show ?thesis using other by (auto simp: B try_send_def)
qed

lemma rooms_inv_example: "rooms_inv example_hub example_heap"
  unfolding example_hub_def
  by (intro rooms_inv_Add rooms_inv_NewHub)
     ((simp_all add: example_heap_def slow_client_def fast_client_def other_client_def new_client_sel)+)

lemma example_hub_clients:
  "clients_of example_hub 7 = [32, 31]" "clients_of example_hub 8 = [33]"
  by (simp_all add: example_hub_def clients_of_def Add_def NewHub_def slow_client_def fast_client_def
        other_client_def new_client_sel)

theorem Broadcast_delivers_or_evicts_witness:
  "rooms_inv example_hub example_heap \<and>
   clients_of example_hub 7 = [32, 31] \<and> clients_of example_hub 8 = [33] \<and>
   length (Send slow_client) = SendCap slow_client \<and> length (Send fast_client) < SendCap fast_client \<and>
   Broadcast example_hub example_heap 7 (call_participants_msg example_hub 7) 31
     = Some (slow_client\<lparr>ConnClosed := True\<rparr>) \<and>
   Broadcast example_hub example_heap 7 (call_participants_msg example_hub 7) 32
     = Some (fast_client\<lparr>Send := [call_participants_msg example_hub 7]\<rparr>) \<and>
   Broadcast example_hub example_heap 7 (call_participants_msg example_hub 7) 33
     = Some other_client"
  using Broadcast_delivers_or_evicts[OF rooms_inv_example, of 7 "call_participants_msg example_hub 7"]
    rooms_inv_example example_hub_clients
  by (simp add: example_heap_def slow_client_def fast_client_def other_client_def new_client_sel)

lemma roomWebSocket_Upgraded:
  assumes "roomWebSocket e s r a = (Upgraded, s')"
  shows "\<exists>cl U R. req_token r \<noteq> [] \<and> ParseJWT e (JWTSecret e) (req_token r) = Inr cl \<and>
           uuid_Parse e (cl_UserID cl) = Some U \<and> uuid_Parse e (req_roomID r) = Some R \<and>
           (\<exists>room. GetRoomByID (store s) R = Inr room) \<and> IsRoomMember (store s) R U = Inr True \<and>
           Upgrade_ok e \<and> serve s R U (cl_Username cl) a = (Upgraded, s')"
  using assms
  by (auto simp: roomWebSocket_def split: if_splits sum.splits option.splits)

lemma msg_types:
  "o_Type (participants_msg ms) = ''participants''" "o_Type (history_msg hs) = ''history''"
  "o_Type (call_participants_msg h R) = ''call_participants''" "o_Type (chat_msg m) = ''chat''"
  by (simp_all add: participants_msg_def history_msg_def call_participants_msg_def chat_msg_def)

lemma count_list_insort_key:
  "count_list (insort_key f x xs) y = count_list (x # xs) y"
  by (induction xs) auto

lemma count_list_sort_key: "count_list (sort_key f xs) y = count_list xs y"
  by (induction xs) (simp_all add: count_list_insort_key)

lemma count_list_append: "count_list (xs @ ys) y = count_list xs y + count_list ys y"
  by (induction xs) auto

lemma history_msg_rows:
  "list_all2 (\<lambda>p m. mp_ID p = m_ID m \<and> mp_RoomID p = m_RoomID m \<and> mp_UserID p = m_UserID m \<and>
                     mp_Username p = m_Username m \<and> mp_Content p = m_Content m \<and>
                     mp_MessageType p = m_MessageType m \<and> mp_MediaURL p = m_MediaURL m \<and>
                     mp_CreatedAt p = m_CreatedAt m)
     (o_Messages (history_msg history)) history"
  by (simp add: history_msg_def list_all2_map1 list_all2_same PayloadFromMessage_def)

lemma serve_history:
  assumes inv: "rooms_inv (hub s) (heap s)" and fresh: "heap s a = None"
    and sv: "serve s R U n a = (resp, s')"
  shows "ListMessages (store s) R 50 = Inr history \<Longrightarrow>
           filter (\<lambda>m. o_Type m = ''history'') (queued s' a) = [history_msg history]"
    and "ListMessages (store s) R 50 = Inl err \<Longrightarrow>
           filter (\<lambda>m. o_Type m = ''history'') (queued s' a) = []"
    and "b \<noteq> a \<Longrightarrow> filter (\<lambda>m. o_Type m = ''history'') (queued s' b) =
           filter (\<lambda>m. o_Type m = ''history'') (queued s b)"
proof -
  have s': "s' = snd (serve s R U n a)" using sv by simp
  note h = serve_fresh(5)[OF inv fresh, of R U n]
  show "ListMessages (store s) R 50 = Inr history \<Longrightarrow>
           filter (\<lambda>m. o_Type m = ''history'') (queued s' a) = [history_msg history]"
    unfolding s' queued_def h
    by (cases "ListRoomMembers (store s) R") (simp_all add: seed_def msg_types)
  show "ListMessages (store s) R 50 = Inl err \<Longrightarrow>
           filter (\<lambda>m. o_Type m = ''history'') (queued s' a) = []"
    unfolding s' queued_def h
    by (cases "ListRoomMembers (store s) R") (simp_all add: seed_def msg_types)
  assume "b \<noteq> a"
  note o = serve_fresh(6)[OF inv fresh this, of R U n]
  show "filter (\<lambda>m. o_Type m = ''history'') (queued s' b) =
           filter (\<lambda>m. o_Type m = ''history'') (queued s b)"
    unfolding s' queued_def o
    by (cases "ListRoomMembers (store s) R"; cases "heap s b")
       (simp_all add: try_send_def msg_types)
qed

text \<open>
  Claim C9. For a limit from 1 to 200 and a query that does not fail, \<open>ListMessages\<close>
  returns at most \<open>limit\<close> messages, as many as the room has up to that limit: rows of
  the room, oldest first, which together with the rows left out are exactly the room's
  rows, and none of the rows left out was created after a returned one. At a successful
  bootstrap from a reachable state the new client's channel holds exactly one history
  message; when the listing with limit 50 succeeds, that message carries the listed rows
  in the listed order, each with its id, room, user, name, content, type, media URL and
  creation time; and no other client's channel gains a history message.
\<close>

theorem ListMessages_most_recent_oldest_first:
  "(0 < limit \<and> limit \<le> 200 \<and> \<not> db_fails st SelectMessages \<longrightarrow>
      (\<exists>older ms. ListMessages st roomID limit = Inr ms \<and>
         (\<forall>m. count_list (older @ ms) m = count_list (room_rows st roomID) m) \<and>
         length ms = min (nat limit) (length (room_rows st roomID)) \<and>
         int (length ms) \<le> limit \<and>
         sorted (map m_CreatedAt ms) \<and>
         (\<forall>x \<in> set older. \<forall>y \<in> set ms. m_CreatedAt x \<le> m_CreatedAt y) \<and>
         set ms \<subseteq> set (room_rows st roomID))) \<and>
   (reachable s \<and> heap s a = None \<and> roomWebSocket e s r a = (Upgraded, s') \<longrightarrow>
      (\<exists>R. uuid_Parse e (req_roomID r) = Some R \<and>
         (\<forall>history. ListMessages (store s) R 50 = Inr history \<longrightarrow>
            (\<exists>msg. filter (\<lambda>m. o_Type m = ''history'') (queued s' a) = [msg] \<and>
               list_all2 (\<lambda>p m. mp_ID p = m_ID m \<and> mp_RoomID p = m_RoomID m \<and>
                                  mp_UserID p = m_UserID m \<and> mp_Username p = m_Username m \<and>
                                  mp_Content p = m_Content m \<and>
                                  mp_MessageType p = m_MessageType m \<and>
                                  mp_MediaURL p = m_MediaURL m \<and>
                                  mp_CreatedAt p = m_CreatedAt m)
                 (o_Messages msg) history)) \<and>
         (\<forall>b. b \<noteq> a \<longrightarrow>
            filter (\<lambda>m. o_Type m = ''history'') (queued s' b) =
            filter (\<lambda>m. o_Type m = ''history'') (queued s b))))"
proof (intro conjI impI)
  assume a: "0 < limit \<and> limit \<le> 200 \<and> \<not> db_fails st SelectMessages"
  define S where "S = sort_key m_CreatedAt (sort_key (db_order st) (room_rows st roomID))"
  define k where "k = length (room_rows st roomID) - nat limit"
  have lm: "ListMessages st roomID limit = Inr (drop k S)"
    using a ListMessages_in_range[of limit st roomID] unfolding S_def k_def by simp
  have len: "length S = length (room_rows st roomID)" unfolding S_def by simp
  have srt: "sorted (map m_CreatedAt S)" unfolding S_def by (rule sorted_sort_key)
  have cnt: "\<And>m. count_list S m = count_list (room_rows st roomID) m"
    unfolding S_def by (simp add: count_list_sort_key)
  have "\<And>m. count_list (take k S @ drop k S) m = count_list S m" by simp
  then have 1: "\<forall>m. count_list (take k S @ drop k S) m = count_list (room_rows st roomID) m"
    using cnt by simp
  have 2: "length (drop k S) = min (nat limit) (length (room_rows st roomID))"
    using a unfolding k_def by (simp add: len)
  have 3: "int (length (drop k S)) \<le> limit" using a unfolding 2 by linarith
  have 4: "sorted (map m_CreatedAt (drop k S))"
    using srt by (simp add: drop_map[symmetric] sorted_wrt_drop)
  have 5: "\<forall>x \<in> set (take k S). \<forall>y \<in> set (drop k S). m_CreatedAt x \<le> m_CreatedAt y"
    using sorted_split_le[OF srt] by blast
  have "set (drop k S) \<subseteq> set S" by (rule set_drop_subset)
  then have 6: "set (drop k S) \<subseteq> set (room_rows st roomID)" unfolding S_def by simp
  show "\<exists>older ms. ListMessages st roomID limit = Inr ms \<and>
         (\<forall>m. count_list (older @ ms) m = count_list (room_rows st roomID) m) \<and>
         length ms = min (nat limit) (length (room_rows st roomID)) \<and>
         int (length ms) \<le> limit \<and>
         sorted (map m_CreatedAt ms) \<and>
         (\<forall>x \<in> set older. \<forall>y \<in> set ms. m_CreatedAt x \<le> m_CreatedAt y) \<and>
         set ms \<subseteq> set (room_rows st roomID)"
    using lm 1 2 3 4 5 6 by blast
next
  assume a: "reachable s \<and> heap s a = None \<and> roomWebSocket e s r a = (Upgraded, s')"
  then have inv: "rooms_inv (hub s) (heap s)" and fresh: "heap s a = None"
    using reachable_rooms_inv by simp_all
  obtain n U R where p: "uuid_Parse e (req_roomID r) = Some R"
    and sv: "serve s R U n a = (Upgraded, s')"
    using roomWebSocket_Upgraded[of e s r a s'] a by blast
  have h: "\<And>history. ListMessages (store s) R 50 = Inr history \<Longrightarrow>
            (\<exists>msg. filter (\<lambda>m. o_Type m = ''history'') (queued s' a) = [msg] \<and>
               list_all2 (\<lambda>p m. mp_ID p = m_ID m \<and> mp_RoomID p = m_RoomID m \<and>
                                  mp_UserID p = m_UserID m \<and> mp_Username p = m_Username m \<and>
                                  mp_Content p = m_Content m \<and>
                                  mp_MessageType p = m_MessageType m \<and>
                                  mp_MediaURL p = m_MediaURL m \<and>
                                  mp_CreatedAt p = m_CreatedAt m)
                 (o_Messages msg) history)"
    using serve_history(1)[OF inv fresh sv] history_msg_rows by blast
  show "\<exists>R. uuid_Parse e (req_roomID r) = Some R \<and>
         (\<forall>history. ListMessages (store s) R 50 = Inr history \<longrightarrow>
            (\<exists>msg. filter (\<lambda>m. o_Type m = ''history'') (queued s' a) = [msg] \<and>
               list_all2 (\<lambda>p m. mp_ID p = m_ID m \<and> mp_RoomID p = m_RoomID m \<and>
                                  mp_UserID p = m_UserID m \<and> mp_Username p = m_Username m \<and>
                                  mp_Content p = m_Content m \<and>
                                  mp_MessageType p = m_MessageType m \<and>
                                  mp_MediaURL p = m_MediaURL m \<and>
                                  mp_CreatedAt p = m_CreatedAt m)
                 (o_Messages msg) history)) \<and>
         (\<forall>b. b \<noteq> a \<longrightarrow>
            filter (\<lambda>m. o_Type m = ''history'') (queued s' b) =
            filter (\<lambda>m. o_Type m = ''history'') (queued s b))"
    using p h serve_history(3)[OF inv fresh sv] by blast
qed

lemma reachable_example_s1: "reachable example_s1"
proof -
  have 0: "reachable example_s0" unfolding example_s0_def by (rule r_start)
  show ?thesis unfolding example_s1_def using 0 example_fresh(1) by (rule r_connect)
qed

lemma example_second_connection:
  "roomWebSocket example_env example_s1 alice_request 22 = (Upgraded, example_s2)"
proof (rule prod_eqI)
  show "fst (roomWebSocket example_env example_s1 alice_request 22) = fst (Upgraded, example_s2)"
    by (simp add: example_states example_simps)
  show "snd (roomWebSocket example_env example_s1 alice_request 22) = snd (Upgraded, example_s2)"
    by (simp add: example_s2_def)
qed

lemma example_queues:
  "queued example_s1 21 =
     [participants_msg [\<lparr>rm_ID = 10, rm_Username = ''alice''\<rparr>],
      history_msg [example_message 1 7 100, example_message 4 7 200, example_message 2 7 300],
      call_participants_msg (hub example_s1) 7]"
  "queued example_s2 21 =
     queued example_s1 21 @ [participants_msg [\<lparr>rm_ID = 10, rm_Username = ''alice''\<rparr>]]"
  "queued example_s2 22 =
     [participants_msg [\<lparr>rm_ID = 10, rm_Username = ''alice''\<rparr>],
      history_msg [example_message 1 7 100, example_message 4 7 200, example_message 2 7 300],
      call_participants_msg (hub example_s2) 7]"
  by (simp_all add: queued_def) (simp_all add: example_states example_simps)

lemma example_history_rows:
  "map mp_ID (concat (map o_Messages
      (filter (\<lambda>m. o_Type m = ''history'') (queued example_s2 22)))) = [1, 4, 2]"
  "map mp_CreatedAt (concat (map o_Messages
      (filter (\<lambda>m. o_Type m = ''history'') (queued example_s2 22)))) = [100, 200, 300]"
  by (simp_all add: example_queues msg_types)
     (simp_all add: history_msg_def PayloadFromMessage_def example_message_def)

theorem ListMessages_most_recent_oldest_first_witness:
  "ListMessages example_store 7 2 = Inr [example_message 4 7 200, example_message 2 7 300] \<and>
   room_rows example_store 7 =
     [example_message 1 7 100, example_message 2 7 300, example_message 4 7 200] \<and>
   reachable example_s1 \<and> heap example_s1 22 = None \<and>
   roomWebSocket example_env example_s1 alice_request 22 = (Upgraded, example_s2) \<and>
   ListMessages (store example_s1) 7 50 =
     Inr [example_message 1 7 100, example_message 4 7 200, example_message 2 7 300] \<and>
   filter (\<lambda>m. o_Type m = ''history'') (queued example_s2 22) =
     [history_msg [example_message 1 7 100, example_message 4 7 200, example_message 2 7 300]] \<and>
   map mp_ID (concat (map o_Messages
      (filter (\<lambda>m. o_Type m = ''history'') (queued example_s2 22)))) = [1, 4, 2] \<and>
   map mp_CreatedAt (concat (map o_Messages
      (filter (\<lambda>m. o_Type m = ''history'') (queued example_s2 22)))) = [100, 200, 300] \<and>
   filter (\<lambda>m. o_Type m = ''history'') (queued example_s2 21) =
     filter (\<lambda>m. o_Type m = ''history'') (queued example_s1 21)"
proof -
  have st: "store example_s1 = example_store" by (simp add: example_states example_simps)
  have rows: "room_rows example_store 7 =
     [example_message 1 7 100, example_message 2 7 300, example_message 4 7 200]"
    by (simp add: example_store_def example_message_def)
  have q: "filter (\<lambda>m. o_Type m = ''history'') (queued example_s2 22) =
     [history_msg [example_message 1 7 100, example_message 4 7 200, example_message 2 7 300]]"
    "filter (\<lambda>m. o_Type m = ''history'') (queued example_s2 21) =
     filter (\<lambda>m. o_Type m = ''history'') (queued example_s1 21)"
    by (simp_all add: example_queues msg_types)
  show ?thesis
    using ListMessages_most_recent_oldest_first[of 2 example_store 7 example_s1 22 example_env
        alice_request example_s2]
      reachable_example_s1 example_fresh(2) example_second_connection example_ListMessages
      rows q example_history_rows
    by (simp add: st)
qed

text \<open>
  Claim C3 says that after the attach a chat-participant snapshot and a call-participant
  snapshot each go to every connection of the room. In the example run, when alice's second
  connection 22 is bootstrapped, her first connection 21 is registered in the room and
  receives one message only, the chat-participant snapshot.
\<close>

theorem bootstrap_call_snapshot_not_broadcast_counterexample:
  "reachable example_s1 \<and> heap example_s1 22 = None \<and>
   roomWebSocket example_env example_s1 alice_request 22 = (Upgraded, example_s2) \<and>
   clients_of (hub example_s2) 7 = [22, 21] \<and>
   queued example_s2 21 =
     queued example_s1 21 @ [participants_msg [\<lparr>rm_ID = 10, rm_Username = ''alice''\<rparr>]] \<and>
   o_Type (participants_msg [\<lparr>rm_ID = 10, rm_Username = ''alice''\<rparr>]) \<noteq> ''call_participants''"
proof -
  have "clients_of (hub example_s2) 7 = [22, 21]" by (simp add: example_states example_simps)
  then show ?thesis
    using reachable_example_s1 example_fresh(2) example_second_connection example_queues(2)
    by (simp add: msg_types)
qed

text \<open>
  Claim C3, amended. From a reachable state the handler never blocks on the channel of the
  client it has just built. At a successful bootstrap the new client is registered in the
  room of the request. When the member listing succeeds, \<open>Broadcast\<close>
  offers the chat-participant snapshot to every client of the room, the new one included
  (\<open>try_send\<close>: enqueued when the channel has room, the socket closed otherwise); when it
  fails, nothing is sent to the others. The new client's channel then holds that snapshot
  (if any), the history (if its listing succeeds) and the call-participant snapshot; the
  other clients receive nothing else, and clients outside the room nothing at all.
\<close>

theorem bootstrap_seeds_room_and_new_connection:
  assumes "reachable s" "heap s a = None"
  shows "fst (roomWebSocket e s r a) \<noteq> Blocked \<and>
     (roomWebSocket e s r a = (Upgraded, s') \<longrightarrow>
        (\<exists>R U n. uuid_Parse e (req_roomID r) = Some R \<and>
           hub s' = Add (hub s) (new_client a R U n) \<and>
           clients_of (hub s') R = a # clients_of (hub s) R \<and>
           heap s' a = Some ((new_client a R U n)\<lparr>Send := seed s R (hub s')\<rparr>) \<and>
           (\<forall>b. b \<noteq> a \<longrightarrow>
              heap s' b =
                (case ListRoomMembers (store s) R of
                   Inl err \<Rightarrow> heap s b
                 | Inr members \<Rightarrow>
                     if b \<in> set (clients_of (hub s) R)
                     then map_option (try_send (participants_msg members)) (heap s b)
                     else heap s b))))"
proof (intro conjI impI)
  have inv: "rooms_inv (hub s) (heap s)" using assms(1) by (rule reachable_rooms_inv)
  show "fst (roomWebSocket e s r a) \<noteq> Blocked"
    using roomWebSocket_cases[of e s r a "fst (roomWebSocket e s r a)" "snd (roomWebSocket e s r a)"]
      serve_fresh(1)[OF inv assms(2)]
    by (metis fst_conv prod.collapse response.distinct(11))
  assume up: "roomWebSocket e s r a = (Upgraded, s')"
  obtain n U R where p: "uuid_Parse e (req_roomID r) = Some R"
    and sv: "serve s R U n a = (Upgraded, s')"
    using roomWebSocket_Upgraded[OF up] by blast
  have s': "s' = snd (serve s R U n a)" using sv by simp
  have nin: "a \<notin> set (clients_of (hub s) R)" using rooms_inv_fresh[OF inv assms(2)] .
  have h: "hub s' = Add (hub s) (new_client a R U n)" unfolding s' by (rule hub_serve)
  have cl: "clients_of (hub s') R = a # clients_of (hub s) R"
    unfolding h using nin by (simp add: clients_of_Add new_client_sel)
  show "\<exists>R U n. uuid_Parse e (req_roomID r) = Some R \<and>
           hub s' = Add (hub s) (new_client a R U n) \<and>
           clients_of (hub s') R = a # clients_of (hub s) R \<and>
           heap s' a = Some ((new_client a R U n)\<lparr>Send := seed s R (hub s')\<rparr>) \<and>
           (\<forall>b. b \<noteq> a \<longrightarrow>
              heap s' b =
                (case ListRoomMembers (store s) R of
                   Inl err \<Rightarrow> heap s b
                 | Inr members \<Rightarrow>
                     if b \<in> set (clients_of (hub s) R)
                     then map_option (try_send (participants_msg members)) (heap s b)
                     else heap s b))"
    using p h cl serve_fresh(5)[OF inv assms(2), of R U n] serve_fresh(6)[OF inv assms(2), of _ R U n]
    unfolding s'[symmetric] by auto
qed

theorem bootstrap_seeds_room_and_new_connection_witness:
  "reachable example_s1 \<and> heap example_s1 22 = None \<and>
   roomWebSocket example_env example_s1 alice_request 22 = (Upgraded, example_s2) \<and>
   uuid_Parse example_env (req_roomID alice_request) = Some 7 \<and>
   clients_of (hub example_s2) 7 = 22 # clients_of (hub example_s1) 7 \<and>
   queued example_s2 22 =
     [participants_msg [\<lparr>rm_ID = 10, rm_Username = ''alice''\<rparr>],
      history_msg [example_message 1 7 100, example_message 4 7 200, example_message 2 7 300],
      call_participants_msg (hub example_s2) 7] \<and>
   queued example_s2 21 =
     queued example_s1 21 @ [participants_msg [\<lparr>rm_ID = 10, rm_Username = ''alice''\<rparr>]]"
proof -
  have "clients_of (hub example_s2) 7 = 22 # clients_of (hub example_s1) 7"
    by (simp add: example_states example_simps)
  moreover have "uuid_Parse example_env (req_roomID alice_request) = Some 7"
    by (simp add: example_env_def alice_request_def)
  ultimately show ?thesis
    using bootstrap_seeds_room_and_new_connection[OF reachable_example_s1 example_fresh(2),
        of example_env alice_request example_s2]
      reachable_example_s1 example_fresh(2) example_second_connection example_queues
    by simp
qed

lemma serve_resp: "fst (serve s R U n a) = Upgraded \<or> fst (serve s R U n a) = Blocked"
  by (simp add: serve_def Let_def split: option.splits sum.splits)

lemma roomWebSocket_changed:
  assumes "snd (roomWebSocket e s r a) \<noteq> s"
  shows "\<exists>cl U R. req_token r \<noteq> [] \<and> ParseJWT e (JWTSecret e) (req_token r) = Inr cl \<and>
           uuid_Parse e (cl_UserID cl) = Some U \<and> uuid_Parse e (req_roomID r) = Some R \<and>
           tbl_rooms (store s) R \<noteq> None \<and> \<not> db_fails (store s) SelectRoom \<and>
           (R, U) \<in> set (tbl_room_members (store s)) \<and> \<not> db_fails (store s) SelectIsMember \<and>
           Upgrade_ok e \<and> roomWebSocket e s r a = serve s R U (cl_Username cl) a"
  using assms
  by (auto simp: roomWebSocket_def GetRoomByID_def IsRoomMember_def
        split: if_splits sum.splits option.splits)

lemma serve_attaches: "a \<in> set (clients_of (hub (snd (serve s R U n a))) R)"
  by (simp add: hub_serve clients_of_Add new_client_sel)

text \<open>
  Claim C5, amended. An empty, unparsable or invalid token, or a user id in it that is no
  UUID, is rejected as unauthorized. Otherwise a room identifier that is no UUID is
  rejected as a bad request; otherwise a room that is absent (or whose lookup fails) as
  not found; otherwise a failed membership lookup as an internal error; otherwise a caller
  who is no member as forbidden; otherwise, when the upgrade fails, the handler returns
  without a client. Only after all of this is the client built and registered. Every
  response other than the upgrade leaves the state as it was, and a changed state implies
  that all checks passed.
\<close>

theorem roomWebSocket_rejects_in_order:
  "(req_token r = [] \<or> (\<exists>err. ParseJWT e (JWTSecret e) (req_token r) = Inl err) \<or>
    (\<exists>cl. ParseJWT e (JWTSecret e) (req_token r) = Inr cl \<and> uuid_Parse e (cl_UserID cl) = None)
    \<longrightarrow> (\<exists>msg. roomWebSocket e s r a = (jsonError StatusUnauthorized msg, s))) \<and>
   (req_token r \<noteq> [] \<and> ParseJWT e (JWTSecret e) (req_token r) = Inr cl \<and>
    uuid_Parse e (cl_UserID cl) = Some U \<longrightarrow>
      (uuid_Parse e (req_roomID r) = None \<longrightarrow>
         roomWebSocket e s r a = (jsonError StatusBadRequest ''invalid room id'', s)) \<and>
      (\<forall>R. uuid_Parse e (req_roomID r) = Some R \<longrightarrow>
         (tbl_rooms (store s) R = None \<or> db_fails (store s) SelectRoom \<longrightarrow>
            roomWebSocket e s r a = (jsonError StatusNotFound ''room not found'', s)) \<and>
         (tbl_rooms (store s) R \<noteq> None \<and> \<not> db_fails (store s) SelectRoom \<longrightarrow>
            (db_fails (store s) SelectIsMember \<longrightarrow>
               roomWebSocket e s r a =
                 (jsonError StatusInternalServerError ''failed to check membership'', s)) \<and>
            (\<not> db_fails (store s) SelectIsMember \<and> (R, U) \<notin> set (tbl_room_members (store s))
               \<longrightarrow> roomWebSocket e s r a = (jsonError StatusForbidden ''forbidden'', s)) \<and>
            (\<not> db_fails (store s) SelectIsMember \<and> (R, U) \<in> set (tbl_room_members (store s))
               \<longrightarrow> (\<not> Upgrade_ok e \<longrightarrow> roomWebSocket e s r a = (UpgradeFailed, s)) \<and>
                   (Upgrade_ok e \<longrightarrow>
                      roomWebSocket e s r a = serve s R U (cl_Username cl) a \<and>
                      a \<in> set (clients_of (hub (snd (roomWebSocket e s r a))) R)))))) \<and>
   (fst (roomWebSocket e s r a) \<noteq> Upgraded \<and> fst (roomWebSocket e s r a) \<noteq> Blocked \<longrightarrow>
      snd (roomWebSocket e s r a) = s) \<and>
   (snd (roomWebSocket e s r a) \<noteq> s \<longrightarrow>
      (\<exists>cl U R. req_token r \<noteq> [] \<and> ParseJWT e (JWTSecret e) (req_token r) = Inr cl \<and>
         uuid_Parse e (cl_UserID cl) = Some U \<and> uuid_Parse e (req_roomID r) = Some R \<and>
         tbl_rooms (store s) R \<noteq> None \<and> (R, U) \<in> set (tbl_room_members (store s)) \<and>
         Upgrade_ok e))"
proof (intro conjI)
  show "req_token r = [] \<or> (\<exists>err. ParseJWT e (JWTSecret e) (req_token r) = Inl err) \<or>
    (\<exists>cl. ParseJWT e (JWTSecret e) (req_token r) = Inr cl \<and> uuid_Parse e (cl_UserID cl) = None)
    \<longrightarrow> (\<exists>msg. roomWebSocket e s r a = (jsonError StatusUnauthorized msg, s))"
    by (auto simp: roomWebSocket_def)
  show "req_token r \<noteq> [] \<and> ParseJWT e (JWTSecret e) (req_token r) = Inr cl \<and>
    uuid_Parse e (cl_UserID cl) = Some U \<longrightarrow>
      (uuid_Parse e (req_roomID r) = None \<longrightarrow>
         roomWebSocket e s r a = (jsonError StatusBadRequest ''invalid room id'', s)) \<and>
      (\<forall>R. uuid_Parse e (req_roomID r) = Some R \<longrightarrow>
         (tbl_rooms (store s) R = None \<or> db_fails (store s) SelectRoom \<longrightarrow>
            roomWebSocket e s r a = (jsonError StatusNotFound ''room not found'', s)) \<and>
         (tbl_rooms (store s) R \<noteq> None \<and> \<not> db_fails (store s) SelectRoom \<longrightarrow>
            (db_fails (store s) SelectIsMember \<longrightarrow>
               roomWebSocket e s r a =
                 (jsonError StatusInternalServerError ''failed to check membership'', s)) \<and>
            (\<not> db_fails (store s) SelectIsMember \<and> (R, U) \<notin> set (tbl_room_members (store s))
               \<longrightarrow> roomWebSocket e s r a = (jsonError StatusForbidden ''forbidden'', s)) \<and>
            (\<not> db_fails (store s) SelectIsMember \<and> (R, U) \<in> set (tbl_room_members (store s))
               \<longrightarrow> (\<not> Upgrade_ok e \<longrightarrow> roomWebSocket e s r a = (UpgradeFailed, s)) \<and>
                   (Upgrade_ok e \<longrightarrow>
                      roomWebSocket e s r a = serve s R U (cl_Username cl) a \<and>
                      a \<in> set (clients_of (hub (snd (roomWebSocket e s r a))) R)))))"
    by (auto simp: roomWebSocket_def GetRoomByID_def IsRoomMember_def serve_attaches)
  show "fst (roomWebSocket e s r a) \<noteq> Upgraded \<and> fst (roomWebSocket e s r a) \<noteq> Blocked \<longrightarrow>
      snd (roomWebSocket e s r a) = s"
    using roomWebSocket_changed[of e s r a] serve_resp by metis
  show "snd (roomWebSocket e s r a) \<noteq> s \<longrightarrow>
      (\<exists>cl U R. req_token r \<noteq> [] \<and> ParseJWT e (JWTSecret e) (req_token r) = Inr cl \<and>
         uuid_Parse e (cl_UserID cl) = Some U \<and> uuid_Parse e (req_roomID r) = Some R \<and>
         tbl_rooms (store s) R \<noteq> None \<and> (R, U) \<in> set (tbl_room_members (store s)) \<and>
         Upgrade_ok e)"
    using roomWebSocket_changed[of e s r a] by blast
qed

lemma example_tokens:
  "ParseJWT example_env (JWTSecret example_env) ''alice-token''
     = Inr \<lparr>cl_UserID = ''user-10'', cl_Username = ''alice''\<rparr>"
  "ParseJWT example_env (JWTSecret example_env) ''bob-token''
     = Inr \<lparr>cl_UserID = ''user-11'', cl_Username = ''bob''\<rparr>"
  "uuid_Parse example_env ''user-10'' = Some 10" "uuid_Parse example_env ''user-11'' = Some 11"
  "uuid_Parse example_env ''room-7'' = Some 7" "uuid_Parse example_env ''room-9'' = Some 9"
  "uuid_Parse example_env ''lobby'' = None" "Upgrade_ok example_env"
  by (simp_all add: example_env_def ParseJWT_def)

lemma example_tables:
  "tbl_rooms example_store 7 \<noteq> None" "tbl_rooms example_store 9 = None"
  "(7, 10) \<in> set (tbl_room_members example_store)"
  "(7, 11) \<notin> set (tbl_room_members example_store)"
  "store example_s0 = example_store"
  by (simp_all add: example_store_def example_s0_def initial_def)

text \<open>
  Claim C5 says that a request with a valid token whose target room does not exist is
  rejected as not found. With alice's valid token and the room identifier \<open>lobby\<close>, which
  is no UUID and so names no room, the response is a bad request.
\<close>

theorem malformed_room_id_counterexample:
  "req_token malformed_request \<noteq> [] \<and>
   ParseJWT example_env (JWTSecret example_env) (req_token malformed_request)
     = Inr \<lparr>cl_UserID = ''user-10'', cl_Username = ''alice''\<rparr> \<and>
   uuid_Parse example_env ''user-10'' = Some 10 \<and>
   uuid_Parse example_env (req_roomID malformed_request) = None \<and>
   roomWebSocket example_env example_s0 malformed_request 21
     = (jsonError StatusBadRequest ''invalid room id'', example_s0) \<and>
   jsonError StatusBadRequest ''invalid room id'' \<noteq> jsonError StatusNotFound ''room not found''"
  by (simp add: malformed_request_def example_tokens roomWebSocket_def)

theorem roomWebSocket_rejects_in_order_witness:
  "roomWebSocket example_env example_s0 anonymous_request 21
     = (jsonError StatusUnauthorized ''missing token'', example_s0) \<and>
   roomWebSocket example_env example_s0 malformed_request 21
     = (jsonError StatusBadRequest ''invalid room id'', example_s0) \<and>
   roomWebSocket example_env example_s0 missing_room_request 21
     = (jsonError StatusNotFound ''room not found'', example_s0) \<and>
   roomWebSocket example_env example_s0 bob_request 21
     = (jsonError StatusForbidden ''forbidden'', example_s0) \<and>
   roomWebSocket example_env example_s0 alice_request 21 = serve example_s0 7 10 ''alice'' 21 \<and>
   fst (roomWebSocket example_env example_s0 alice_request 21) = Upgraded \<and>
   21 \<in> set (clients_of (hub (snd (roomWebSocket example_env example_s0 alice_request 21))) 7) \<and>
   snd (roomWebSocket example_env example_s0 alice_request 21) \<noteq> example_s0"
proof -
  have up: "fst (roomWebSocket example_env example_s0 alice_request 21) = Upgraded"
    by (simp add: example_simps)
  have ne: "snd (roomWebSocket example_env example_s0 alice_request 21) \<noteq> example_s0"
  proof
    assume "snd (roomWebSocket example_env example_s0 alice_request 21) = example_s0"
    then have "readers (snd (roomWebSocket example_env example_s0 alice_request 21)) = readers example_s0"
      by simp
    then show False by (simp add: example_simps)
  qed
  have an: "roomWebSocket example_env example_s0 anonymous_request 21
     = (jsonError StatusUnauthorized ''missing token'', example_s0)"
    by (simp add: roomWebSocket_def anonymous_request_def)
  have ml: "roomWebSocket example_env example_s0 malformed_request 21
     = (jsonError StatusBadRequest ''invalid room id'', example_s0)"
    using roomWebSocket_rejects_in_order[of malformed_request example_env example_s0 21
        "\<lparr>cl_UserID = ''user-10'', cl_Username = ''alice''\<rparr>" 10]
    by (simp add: malformed_request_def example_tokens)
  have mr: "roomWebSocket example_env example_s0 missing_room_request 21
     = (jsonError StatusNotFound ''room not found'', example_s0)"
    using roomWebSocket_rejects_in_order[of missing_room_request example_env example_s0 21
        "\<lparr>cl_UserID = ''user-10'', cl_Username = ''alice''\<rparr>" 10]
    by (simp add: missing_room_request_def example_tokens example_tables)
  have bb: "roomWebSocket example_env example_s0 bob_request 21
     = (jsonError StatusForbidden ''forbidden'', example_s0)"
    using roomWebSocket_rejects_in_order[of bob_request example_env example_s0 21
        "\<lparr>cl_UserID = ''user-11'', cl_Username = ''bob''\<rparr>" 11]
    by (simp add: bob_request_def example_tokens example_tables example_db_ok)
  have al: "roomWebSocket example_env example_s0 alice_request 21 = serve example_s0 7 10 ''alice'' 21 \<and>
     21 \<in> set (clients_of (hub (snd (roomWebSocket example_env example_s0 alice_request 21))) 7)"
    using roomWebSocket_rejects_in_order[of alice_request example_env example_s0 21
        "\<lparr>cl_UserID = ''user-10'', cl_Username = ''alice''\<rparr>" 10]
    by (simp add: alice_request_def example_tokens example_tables example_db_ok serve_attaches)
  show ?thesis using up ne an ml mr bb al by (simp add: serve_attaches)
qed

end
